theory Spec2Isabelle
  imports Complex_Main "HOL-Library.Word" "HOL-Library.Monad_Syntax"
begin

section \<open>Lattice geometry (coord.hpp)\<close>

text \<open>
  A coordinate is a \<^verbatim>\<open>std::vector<int>\<close> (a \<^verbatim>\<open>std::valarray<int>\<close> in tissue.cpp) with
  \<open>dimensions\<close> components. The components are modelled as unbounded integers: no
  claim below depends on the wrap-around of \<^verbatim>\<open>int\<close>.
\<close>

type_synonym coord = "int list"

text \<open>\<^verbatim>\<open>operator+=\<close> on vectors: componentwise \<^verbatim>\<open>std::plus\<close>. The source asserts equal
  sizes; every caller passes vectors of the geometry's dimension.\<close>

definition vadd :: "coord \<Rightarrow> coord \<Rightarrow> coord" where
  "vadd lhs rhs = map2 (+) lhs rhs"

subsection \<open>\<^verbatim>\<open>std::next_permutation\<close>\<close>

text \<open>
  The backward scan for the pivot: \<open>i1\<close> is the element last visited, \<open>suf\<close> the elements
  to its right (in vector order), the third argument the elements still to the left, nearest
  first. The pivot is the first \<open>p\<close> with \<open>p < i1\<close>.
\<close>

fun find_pivot :: "int \<Rightarrow> int list \<Rightarrow> int list \<Rightarrow> (int list \<times> int \<times> int list) option" where
  "find_pivot i1 suf [] = None"
| "find_pivot i1 suf (p # rpre) =
     (if p < i1 then Some (rpre, p, i1 # suf) else find_pivot p (i1 # suf) rpre)"

text \<open>The scan \<^verbatim>\<open>while (!(*i < *--j))\<close> from the right end, followed by \<^verbatim>\<open>iter_swap\<close>: on
  the reversed suffix, the first element greater than the pivot is exchanged with it.\<close>

fun swap_first_greater :: "int \<Rightarrow> int list \<Rightarrow> int \<times> int list" where
  "swap_first_greater p [] = (p, [])"
| "swap_first_greater p (x # xs) =
     (if p < x then (x, p # xs)
      else (case swap_first_greater p xs of (y, ys) \<Rightarrow> (y, x # ys)))"

definition next_permutation :: "int list \<Rightarrow> bool \<times> int list" where
  "next_permutation v =
     (case rev v of
        [] \<Rightarrow> (False, v)
      | [x] \<Rightarrow> (False, v)
      | i1 # rest \<Rightarrow>
          (case find_pivot i1 [] rest of
             None \<Rightarrow> (False, rev v)
           | Some (rpre, p, suf) \<Rightarrow>
               (case swap_first_greater p (rev suf) of
                  (sj, rsuf) \<Rightarrow> (True, rev rpre @ sj # rsuf))))"

text \<open>\<^verbatim>\<open>do { directions_.push_back(f(v)); } while (std::next_permutation(v.begin(), v.end()));\<close>\<close>

partial_function (option) push_back_permutations ::
  "(int list \<Rightarrow> coord) \<Rightarrow> int list \<Rightarrow> coord list \<Rightarrow> coord list option" where
  "push_back_permutations f v directions =
     (case next_permutation v of
        (more, v') \<Rightarrow>
          if more then push_back_permutations f v' (directions @ [f v])
          else Some (directions @ [f v]))"

subsection \<open>The three geometries\<close>

datatype coord_class = Neumann | Moore | Hexagonal

text \<open>\<^verbatim>\<open>Neumann::Neumann(d)\<close>: the permutations of \<open>(0,..,0,1)\<close>, then those of \<open>(-1,0,..,0)\<close>.\<close>

definition Neumann_directions :: "nat \<Rightarrow> coord list option" where
  "Neumann_directions d =
     do {
       ds \<leftarrow> push_back_permutations (\<lambda>v. v) ((replicate d 0)[d - 1 := 1]) [];
       push_back_permutations (\<lambda>v. v) ((replicate d 0)[0 := -1]) ds
     }"

text \<open>\<^verbatim>\<open>Moore::Moore(d)\<close>: the nested loops over \<open>{-1, 0, 1}\<close>, the origin skipped.\<close>

definition Moore_directions :: "nat \<Rightarrow> coord list" where
  "Moore_directions d =
     concat (map (\<lambda>x. concat (map (\<lambda>y.
       if d = 2 then (if x = 0 \<and> y = 0 then [] else [[x, y]])
       else concat (map (\<lambda>z. if x = 0 \<and> y = 0 \<and> z = 0 then [] else [[x, y, z]])
              [-1, 0, 1]))
       [-1, 0, 1])) [-1, 0, 1])"

text \<open>\<^verbatim>\<open>Hexagonal::Hexagonal(d)\<close>: the permutations of \<open>(-1, 0, 1)\<close> cut to two components
  (with a third component 0 when \<open>d \<noteq> 2\<close>), then the six off-plane neighbours.\<close>

definition Hexagonal_directions :: "nat \<Rightarrow> coord list option" where
  "Hexagonal_directions d =
     (if d = 2 then push_back_permutations (\<lambda>v. [v ! 0, v ! 1]) [-1, 0, 1] []
      else do {
        ds \<leftarrow> push_back_permutations (\<lambda>v. [v ! 0, v ! 1, 0]) [-1, 0, 1] [];
        Some (ds @ [[0, 0, -1], [1, 0, -1], [1, -1, -1], [0, 0, 1], [-1, 0, 1], [-1, 1, 1]])
      })"

text \<open>
  A geometry object: its dynamic class, \<open>dimensions\<close>, and the members \<open>directions_\<close> and
  \<open>max_neighbors_\<close> that the constructor of the class fills. The constructors' loops are
  partial functions, so construction yields an option.
\<close>

record Coord =
  dynamic_class :: coord_class
  dimensions :: nat
  directions :: "coord list"
  max_neighbors :: nat

definition Coord_new :: "coord_class \<Rightarrow> nat \<Rightarrow> Coord option" where
  "Coord_new c d =
     (case c of
        Neumann \<Rightarrow>
          map_option (\<lambda>ds. \<lparr>dynamic_class = Neumann, dimensions = d, directions = ds,
                             max_neighbors = 2 * d\<rparr>) (Neumann_directions d)
      | Moore \<Rightarrow>
          Some \<lparr>dynamic_class = Moore, dimensions = d, directions = Moore_directions d,
                max_neighbors = 3 ^ d - 1\<rparr>
      | Hexagonal \<Rightarrow>
          map_option (\<lambda>ds. \<lparr>dynamic_class = Hexagonal, dimensions = d, directions = ds,
                             max_neighbors = 6 * (d - 1)\<rparr>) (Hexagonal_directions d))"


declare push_back_permutations.simps [code]

text \<open>\<^verbatim>\<open>Neumann::graph_distance\<close>: \<^verbatim>\<open>std::accumulate\<close> from 0 with \<open>|lhs| + |rhs|\<close>.\<close>

definition Neumann_graph_distance :: "coord \<Rightarrow> nat" where
  "Neumann_graph_distance v = nat (foldl (\<lambda>lhs rhs. \<bar>lhs\<bar> + \<bar>rhs\<bar>) 0 v)"

text \<open>\<^verbatim>\<open>Moore::graph_distance\<close>: the absolute value of the first element that is largest
  in absolute value (\<^verbatim>\<open>std::max_element\<close> with the comparison \<open>|lhs| < |rhs|\<close>).\<close>

definition Moore_graph_distance :: "coord \<Rightarrow> nat" where
  "Moore_graph_distance v =
     (case v of [] \<Rightarrow> 0 | x # xs \<Rightarrow> nat \<bar>foldl (\<lambda>m y. if \<bar>m\<bar> < \<bar>y\<bar> then y else m) x xs\<bar>)"

text \<open>\<^verbatim>\<open>Hexagonal::graph_distance\<close>: the largest of \<open>|v[i]|\<close>, \<open>|v[0] + v[1]|\<close> and, in three
  dimensions, \<open>|v[0] + v[2]|\<close>.\<close>

definition Hexagonal_graph_distance :: "coord \<Rightarrow> nat" where
  "Hexagonal_graph_distance v =
     (let absv = map (\<lambda>x. nat \<bar>x\<bar>) v @ [nat \<bar>v ! 0 + v ! 1\<bar>]
                 @ (if length v = 3 then [nat \<bar>v ! 0 + v ! 2\<bar>] else [])
      in foldl max 0 absv)"

text \<open>\<^verbatim>\<open>Coord::euclidean_distance\<close>, declared without \<^verbatim>\<open>virtual\<close> in the base class.\<close>

definition Coord_euclidean_distance :: "coord \<Rightarrow> real" where
  "Coord_euclidean_distance v = sqrt (foldl (\<lambda>result x. result + real_of_int (x * x)) 0 v)"

text \<open>\<^verbatim>\<open>Hexagonal::euclidean_distance\<close>: a member of the derived class with the same name.
  It hides the base member; it does not override it.\<close>

definition Hexagonal_euclidean_distance :: "coord \<Rightarrow> real" where
  "Hexagonal_euclidean_distance v = real (Hexagonal_graph_distance v)"

text \<open>
  The tissue holds its geometry as \<^verbatim>\<open>std::unique_ptr<Coord> coord_func_\<close>. A call through
  that handle is resolved by the dynamic class for a virtual member (\<open>graph_distance\<close>) and
  by the static type \<open>Coord\<close> for a non-virtual one (\<open>euclidean_distance\<close>).
\<close>

definition graph_distance :: "Coord \<Rightarrow> coord \<Rightarrow> nat" where
  "graph_distance coord_func v =
     (case dynamic_class coord_func of
        Neumann \<Rightarrow> Neumann_graph_distance v
      | Moore \<Rightarrow> Moore_graph_distance v
      | Hexagonal \<Rightarrow> Hexagonal_graph_distance v)"

definition euclidean_distance :: "Coord \<Rightarrow> coord \<Rightarrow> real" where
  "euclidean_distance coord_func v = Coord_euclidean_distance v"


section \<open>Doubles and the random engine\<close>

text \<open>
  A \<^verbatim>\<open>double\<close> is modelled by its real value or one of the IEEE special values. Rounding
  and the sign of zero are not modelled (a zero divisor is read as \<open>+0\<close>); the operations
  below are the IEEE ones otherwise, so that \<open>1.0 / 0.0\<close> is \<open>+\<infinity>\<close>, \<open>\<infinity> - \<infinity>\<close> is NaN and
  every comparison with NaN is false.
\<close>

datatype dbl = Fin real | PInf | NInf | NaN

fun dlt :: "dbl \<Rightarrow> dbl \<Rightarrow> bool" where
  "dlt (Fin x) (Fin y) = (x < y)"
| "dlt (Fin x) PInf = True"
| "dlt NInf (Fin y) = True"
| "dlt NInf PInf = True"
| "dlt _ _ = False"

definition dle :: "dbl \<Rightarrow> dbl \<Rightarrow> bool" where
  "dle a b = (dlt a b \<or> (a = b \<and> a \<noteq> NaN))"

fun dneg :: "dbl \<Rightarrow> dbl" where
  "dneg (Fin x) = Fin (- x)"
| "dneg PInf = NInf"
| "dneg NInf = PInf"
| "dneg NaN = NaN"

fun dadd :: "dbl \<Rightarrow> dbl \<Rightarrow> dbl" where
  "dadd (Fin x) (Fin y) = Fin (x + y)"
| "dadd NaN _ = NaN"
| "dadd _ NaN = NaN"
| "dadd PInf NInf = NaN"
| "dadd NInf PInf = NaN"
| "dadd PInf _ = PInf"
| "dadd _ PInf = PInf"
| "dadd NInf _ = NInf"
| "dadd _ NInf = NInf"

definition dsub :: "dbl \<Rightarrow> dbl \<Rightarrow> dbl" where
  "dsub a b = dadd a (dneg b)"

text \<open>The sign of a product or quotient with an infinite operand.\<close>

definition signed_inf :: "bool \<Rightarrow> dbl" where
  "signed_inf negative = (if negative then NInf else PInf)"

fun dmul :: "dbl \<Rightarrow> dbl \<Rightarrow> dbl" where
  "dmul (Fin x) (Fin y) = Fin (x * y)"
| "dmul NaN _ = NaN"
| "dmul _ NaN = NaN"
| "dmul (Fin x) PInf = (if x = 0 then NaN else signed_inf (x < 0))"
| "dmul (Fin x) NInf = (if x = 0 then NaN else signed_inf (0 < x))"
| "dmul PInf (Fin y) = (if y = 0 then NaN else signed_inf (y < 0))"
| "dmul NInf (Fin y) = (if y = 0 then NaN else signed_inf (0 < y))"
| "dmul PInf PInf = PInf"
| "dmul NInf NInf = PInf"
| "dmul PInf NInf = NInf"
| "dmul NInf PInf = NInf"

fun ddiv :: "dbl \<Rightarrow> dbl \<Rightarrow> dbl" where
  "ddiv (Fin x) (Fin y) =
     (if y \<noteq> 0 then Fin (x / y) else if x = 0 then NaN else signed_inf (x < 0))"
| "ddiv NaN _ = NaN"
| "ddiv _ NaN = NaN"
| "ddiv (Fin x) PInf = Fin 0"
| "ddiv (Fin x) NInf = Fin 0"
| "ddiv PInf (Fin y) = signed_inf (y < 0)"
| "ddiv NInf (Fin y) = signed_inf (0 \<le> y)"
| "ddiv PInf PInf = NaN"
| "ddiv PInf NInf = NaN"
| "ddiv NInf PInf = NaN"
| "ddiv NInf NInf = NaN"

text \<open>\<^verbatim>\<open>std::max(a, b)\<close> is \<^verbatim>\<open>(a < b) ? b : a\<close>.\<close>

definition dmax :: "dbl \<Rightarrow> dbl \<Rightarrow> dbl" where
  "dmax a b = (if dlt a b then b else a)"

text \<open>
  The engine \<^verbatim>\<open>wtl::sfmt64()\<close> and the standard distributions are library code. The engine
  is modelled as a stream of variates with a read position; every call of a distribution
  reads one variate and applies its own parameters to it, as the library's samplers do:
  a canonical draw is the variate itself, a gamma draw is the Gamma(k,1) variate times the
  scale, an exponential draw is the Exp(1) variate divided by the rate, and a uniform
  integer on \<open>0..n-1\<close> is the variate's integer part reduced modulo \<open>n\<close>. A normal draw
  is \<open>mean + sd * z\<close>, where the standard normal deviate \<open>z\<close> of a position is kept in
  a stream of its own, since it is signed while the other variates are not.
\<close>

record urbg =
  variates :: "nat \<Rightarrow> real"
  normals :: "nat \<Rightarrow> real"
  pos :: nat

definition draw :: "urbg \<Rightarrow> real \<times> urbg" where
  "draw engine = (variates engine (pos engine), engine\<lparr>pos := Suc (pos engine)\<rparr>)"

definition generate_canonical :: "urbg \<Rightarrow> real \<times> urbg" where
  "generate_canonical engine = draw engine"

text \<open>\<^verbatim>\<open>bernoulli(p, engine)\<close> of cell.cpp:
  \<^verbatim>\<open>p >= 1.0 || (p > 0.0 && wtl::generate_canonical(engine) < p)\<close>.\<close>

definition bernoulli :: "dbl \<Rightarrow> urbg \<Rightarrow> bool \<times> urbg" where
  "bernoulli p engine =
     (if dle (Fin 1) p then (True, engine)
      else if dlt (Fin 0) p then
        (case generate_canonical engine of (u, engine') \<Rightarrow> (dlt (Fin u) p, engine'))
      else (False, engine))"

definition normal_distribution :: "real \<Rightarrow> real \<Rightarrow> urbg \<Rightarrow> dbl \<times> urbg" where
  "normal_distribution mean sd engine =
     (Fin (mean + sd * normals engine (pos engine)), engine\<lparr>pos := Suc (pos engine)\<rparr>)"

definition gamma_distribution :: "real \<Rightarrow> dbl \<Rightarrow> urbg \<Rightarrow> dbl \<times> urbg" where
  "gamma_distribution k theta engine =
     (case draw engine of (x, engine') \<Rightarrow> (dmul (Fin x) theta, engine'))"

definition exponential_distribution :: "dbl \<Rightarrow> urbg \<Rightarrow> dbl \<times> urbg" where
  "exponential_distribution lambda engine =
     (case draw engine of (x, engine') \<Rightarrow> (ddiv (Fin x) lambda, engine'))"

definition uniform_int_distribution :: "nat \<Rightarrow> urbg \<Rightarrow> nat \<times> urbg" where
  "uniform_int_distribution n engine =
     (case draw engine of (x, engine') \<Rightarrow> (nat \<lfloor>x\<rfloor> mod n, engine'))"



section \<open>Cells (cell.hpp, cell.cpp)\<close>

datatype CellType = stem | nonstem

datatype Event = birth | death | migration

text \<open>The rates a cell reads through its \<^verbatim>\<open>std::shared_ptr<EventRates> event_rates_\<close>.\<close>

record EventRates =
  birth_rate :: dbl
  death_rate :: dbl
  death_prob :: dbl
  migra_rate :: dbl

text \<open>
  Objects created by \<^verbatim>\<open>std::make_shared\<close> live in a store: a handle is an address, and
  \<open>top\<close> is the next unused one. Two cells that hold the same handle share the object.
\<close>

record 'a store =
  obj :: "nat \<Rightarrow> 'a"
  top :: nat

definition make_shared :: "'a \<Rightarrow> 'a store \<Rightarrow> nat \<times> 'a store" where
  "make_shared x st = (top st, st\<lparr>obj := (obj st)(top st := x), top := Suc (top st)\<rparr>)"

definition assign :: "nat \<Rightarrow> 'a \<Rightarrow> 'a store \<Rightarrow> 'a store" where
  "assign h x st = st\<lparr>obj := (obj st)(h := x)\<rparr>"

text \<open>
  The data members of \<open>Cell\<close>. The ancestor is an owning pointer to a snapshot that is never
  written after it is archived, so it is held by value; \<open>None\<close> is the null pointer.
  \<open>id_\<close> is an \<^verbatim>\<open>unsigned\<close> counter, modelled without wrap-around;
  \<open>proliferation_capacity_\<close> is a \<^verbatim>\<open>uint_fast8_t\<close>. A member \<open>name_\<close> of the source is the
  field \<open>name\<close> here (\<open>cell_id\<close> and \<open>cell_type\<close> for \<open>id_\<close> and \<open>type_\<close>).
\<close>

record cell_fields =
  coord :: coord
  event_rates :: nat
  cell_type :: CellType
  proliferation_capacity :: "8 word"
  next_event :: Event
  elapsed :: dbl
  cell_id :: nat
  time_of_birth :: dbl
  time_of_death :: dbl

datatype cell = Cell (members: cell_fields) (ancestor: "cell option")

definition upd :: "(cell_fields \<Rightarrow> cell_fields) \<Rightarrow> cell \<Rightarrow> cell" where
  "upd f c = Cell (f (members c)) (ancestor c)"

definition set_coord :: "coord \<Rightarrow> cell \<Rightarrow> cell" where
  "set_coord v c = upd (\<lambda>f. f\<lparr>coord := v\<rparr>) c"

definition set_time_of_death :: "dbl \<Rightarrow> cell \<Rightarrow> cell" where
  "set_time_of_death t c = upd (\<lambda>f. f\<lparr>time_of_death := t\<rparr>) c"

text \<open>\<^verbatim>\<open>set_time_of_birth(t, i, ancestor)\<close>; the decrement of the 8-bit capacity wraps.\<close>

definition set_time_of_birth :: "dbl \<Rightarrow> nat \<Rightarrow> cell \<Rightarrow> cell \<Rightarrow> cell" where
  "set_time_of_birth t i anc c =
     Cell ((members c)\<lparr>time_of_birth := t, cell_id := i,
             proliferation_capacity :=
               (if cell_type (members c) = nonstem then proliferation_capacity (members c) - 1
                else proliferation_capacity (members c))\<rparr>)
          (Some anc)"

text \<open>The static members of \<open>Cell\<close> and the parameters of the driver distributions
  (\<^verbatim>\<open>init_distributions\<close>).\<close>

record cell_params =
  GAMMA_SHAPE :: real
  PROB_SYMMETRIC_DIVISION :: real
  RATE_BIRTH :: real
  RATE_DEATH :: real
  RATE_MIGRA :: real
  MEAN_BIRTH :: real
  MEAN_DEATH :: real
  MEAN_MIGRA :: real
  SD_BIRTH :: real
  SD_DEATH :: real
  SD_MIGRA :: real

text \<open>The copy constructor: seven members are copied, the others take their default member
  initialisers, and a stem copy becomes non-stem unless the Bernoulli trial succeeds.\<close>

definition Cell_copy :: "cell_params \<Rightarrow> cell \<Rightarrow> urbg \<Rightarrow> cell \<times> urbg" where
  "Cell_copy P other engine =
     (let c = Cell \<lparr>coord = coord (members other),
                    event_rates = event_rates (members other),
                    cell_type = cell_type (members other),
                    proliferation_capacity = proliferation_capacity (members other),
                    next_event = birth,
                    elapsed = Fin 0,
                    cell_id = cell_id (members other),
                    time_of_birth = time_of_birth (members other),
                    time_of_death = Fin 0\<rparr>
                   (ancestor other)
      in if cell_type (members c) = stem then
           (case bernoulli (Fin (PROB_SYMMETRIC_DIVISION P)) engine of
              (symmetric, engine') \<Rightarrow>
                (if \<not> symmetric then upd (\<lambda>f. f\<lparr>cell_type := nonstem\<rparr>) c else c, engine'))
         else (c, engine))"

subsection \<open>Driver mutations\<close>

text \<open>A line of the driver stream: \<open>id\<close>, trait, coefficient.\<close>

type_synonym driver_line = "nat \<times> string \<times> dbl"

text \<open>\<^verbatim>\<open>event_rates_ = std::make_shared<EventRates>(*event_rates_);\<close>\<close>

definition copy_rates :: "cell \<Rightarrow> EventRates store \<Rightarrow> cell \<times> EventRates store" where
  "copy_rates c st =
     (case make_shared (obj st (event_rates (members c))) st of
        (h, st') \<Rightarrow> (upd (\<lambda>f. f\<lparr>event_rates := h\<rparr>) c, st'))"

text \<open>
  The three blocks of \<^verbatim>\<open>Cell::mutate\<close>. Each \<^verbatim>\<open>(s += 1.0)\<close> of the source both changes \<open>s\<close>
  and yields the new value; the death block has two of them.
\<close>

definition mutate_birth ::
  "cell_params \<Rightarrow> driver_line list \<times> cell \<times> EventRates store \<times> urbg \<Rightarrow>
   driver_line list \<times> cell \<times> EventRates store \<times> urbg" where
  "mutate_birth P = (\<lambda>(oss, c, st, engine).
     (case bernoulli (Fin (RATE_BIRTH P)) engine of
        (hit, engine1) \<Rightarrow>
          if hit then
            (case copy_rates c st of
               (c1, st1) \<Rightarrow>
                 (case normal_distribution (MEAN_BIRTH P) (SD_BIRTH P) engine1 of
                    (s, engine2) \<Rightarrow>
                      (let h = event_rates (members c1);
                           r = obj st1 h;
                           s1 = dadd s (Fin 1);
                           r1 = r\<lparr>birth_rate := dmul (birth_rate r) s1\<rparr>
                       in (oss @ [(cell_id (members c1), ''birth'', s)], c1, assign h r1 st1, engine2))))
          else (oss, c, st, engine1)))"

definition mutate_death ::
  "cell_params \<Rightarrow> driver_line list \<times> cell \<times> EventRates store \<times> urbg \<Rightarrow>
   driver_line list \<times> cell \<times> EventRates store \<times> urbg" where
  "mutate_death P = (\<lambda>(oss, c, st, engine).
     (case bernoulli (Fin (RATE_DEATH P)) engine of
        (hit, engine1) \<Rightarrow>
          if hit then
            (case copy_rates c st of
               (c1, st1) \<Rightarrow>
                 (case normal_distribution (MEAN_DEATH P) (SD_DEATH P) engine1 of
                    (s, engine2) \<Rightarrow>
                      (let h = event_rates (members c1);
                           r = obj st1 h;
                           s1 = dadd s (Fin 1);
                           r1 = r\<lparr>death_rate := dmul (death_rate r) s1\<rparr>;
                           s2 = dadd s1 (Fin 1);
                           r2 = r1\<lparr>death_prob := dmul (death_prob r1) s2\<rparr>
                       in (oss @ [(cell_id (members c1), ''death'', s)], c1, assign h r2 st1, engine2))))
          else (oss, c, st, engine1)))"

definition mutate_migra ::
  "cell_params \<Rightarrow> driver_line list \<times> cell \<times> EventRates store \<times> urbg \<Rightarrow>
   driver_line list \<times> cell \<times> EventRates store \<times> urbg" where
  "mutate_migra P = (\<lambda>(oss, c, st, engine).
     (case bernoulli (Fin (RATE_MIGRA P)) engine of
        (hit, engine1) \<Rightarrow>
          if hit then
            (case copy_rates c st of
               (c1, st1) \<Rightarrow>
                 (case normal_distribution (MEAN_MIGRA P) (SD_MIGRA P) engine1 of
                    (s, engine2) \<Rightarrow>
                      (let h = event_rates (members c1);
                           r = obj st1 h;
                           s1 = dadd s (Fin 1);
                           r1 = r\<lparr>migra_rate := dmul (migra_rate r) s1\<rparr>
                       in (oss @ [(cell_id (members c1), ''migra'', s)], c1, assign h r1 st1, engine2))))
          else (oss, c, st, engine1)))"

definition mutate ::
  "cell_params \<Rightarrow> cell \<Rightarrow> EventRates store \<Rightarrow> urbg \<Rightarrow>
   driver_line list \<times> cell \<times> EventRates store \<times> urbg" where
  "mutate P c st engine = mutate_migra P (mutate_death P (mutate_birth P ([], c, st, engine)))"

text \<open>\<^verbatim>\<open>Cell::force_mutate\<close>: one copy, three draws, the factors \<open>1.0 + s\<close>.\<close>

definition force_mutate ::
  "cell_params \<Rightarrow> cell \<Rightarrow> EventRates store \<Rightarrow> urbg \<Rightarrow>
   driver_line list \<times> cell \<times> EventRates store \<times> urbg" where
  "force_mutate P c st engine =
     (case copy_rates c st of
        (c1, st1) \<Rightarrow>
     (case normal_distribution (MEAN_BIRTH P) (SD_BIRTH P) engine of
        (s_birth, engine1) \<Rightarrow>
     (case normal_distribution (MEAN_DEATH P) (SD_DEATH P) engine1 of
        (s_death, engine2) \<Rightarrow>
     (case normal_distribution (MEAN_MIGRA P) (SD_MIGRA P) engine2 of
        (s_migra, engine3) \<Rightarrow>
          (let h = event_rates (members c1);
               r = obj st1 h;
               r1 = r\<lparr>birth_rate := dmul (birth_rate r) (dadd (Fin 1) s_birth)\<rparr>;
               r2 = r1\<lparr>death_rate := dmul (death_rate r1) (dadd (Fin 1) s_death)\<rparr>;
               r3 = r2\<lparr>death_prob := dmul (death_prob r2) (dadd (Fin 1) s_death)\<rparr>;
               r4 = r3\<lparr>migra_rate := dmul (migra_rate r3) (dadd (Fin 1) s_migra)\<rparr>;
               i = cell_id (members c1)
           in ([(i, ''birth'', s_birth), (i, ''death'', s_death), (i, ''migra'', s_migra)],
               c1, assign h r4 st1, engine3))))))"

subsection \<open>The waiting time to the next event\<close>

text \<open>The scale of the gamma distribution, \<^verbatim>\<open>theta\<close> of \<^verbatim>\<open>Cell::delta_time\<close>.\<close>

definition gamma_scale :: "cell_params \<Rightarrow> EventRates \<Rightarrow> cell \<Rightarrow> dbl \<Rightarrow> dbl" where
  "gamma_scale P r c positional_value =
     (let mu = Fin 1;
          mu = ddiv mu (birth_rate r);
          mu = ddiv mu positional_value;
          mu = dsub mu (elapsed (members c))
      in dmax (ddiv mu (Fin (GAMMA_SHAPE P))) (Fin 0))"

text \<open>The three sampled times, each \<open>+\<infinity>\<close> unless its guard holds, and the engine after
  the draws.\<close>

definition sample_times ::
  "cell_params \<Rightarrow> EventRates \<Rightarrow> cell \<Rightarrow> dbl \<Rightarrow> urbg \<Rightarrow> (dbl \<times> dbl \<times> dbl) \<times> urbg" where
  "sample_times P r c positional_value engine =
     (case (if 0 < unat (proliferation_capacity (members c))
            then gamma_distribution (GAMMA_SHAPE P) (gamma_scale P r c positional_value) engine
            else (PInf, engine)) of
        (t_birth, engine1) \<Rightarrow>
     (case (if dlt (Fin 0) (death_rate r)
            then exponential_distribution (death_rate r) engine1
            else (PInf, engine1)) of
        (t_death, engine2) \<Rightarrow>
     (case (if dlt (Fin 0) (migra_rate r)
            then exponential_distribution (migra_rate r) engine2
            else (PInf, engine2)) of
        (t_migra, engine3) \<Rightarrow> ((t_birth, t_death, t_migra), engine3))))"

text \<open>\<^verbatim>\<open>Cell::delta_time\<close>: the returned time, the cell with \<open>next_event_\<close> and \<open>elapsed_\<close>
  set, and the engine.\<close>

definition delta_time ::
  "cell_params \<Rightarrow> EventRates store \<Rightarrow> cell \<Rightarrow> dbl \<Rightarrow> urbg \<Rightarrow> dbl \<times> cell \<times> urbg" where
  "delta_time P st c positional_value engine =
     (let r = obj st (event_rates (members c)) in
      case sample_times P r c positional_value engine of
        ((t_birth, t_death, t_migra), engine3) \<Rightarrow>
          if dlt t_birth t_death \<and> dlt t_birth t_migra then
            (case bernoulli (death_prob r) engine3 of
               (dies, engine4) \<Rightarrow>
                 (t_birth,
                  upd (\<lambda>f. f\<lparr>next_event := (if dies then death else birth),
                              elapsed := Fin 0\<rparr>) c,
                  engine4))
          else if dlt t_death t_migra then
            (t_death, upd (\<lambda>f. f\<lparr>next_event := death\<rparr>) c, engine3)
          else
            (t_migra,
             upd (\<lambda>f. f\<lparr>next_event := migration,
                         elapsed := dadd (elapsed f) t_migra\<rparr>) c,
             engine3))"

text \<open>\<^verbatim>\<open>Cell::set_cycle_dependent_death\<close>\<close>

definition set_cycle_dependent_death ::
  "dbl \<Rightarrow> cell \<Rightarrow> EventRates store \<Rightarrow> urbg \<Rightarrow> cell \<times> EventRates store \<times> urbg" where
  "set_cycle_dependent_death p c st engine =
     (case copy_rates c st of
        (c1, st1) \<Rightarrow>
          (let h = event_rates (members c1);
               st2 = assign h ((obj st1 h)\<lparr>death_prob := p\<rparr>) st1
           in case bernoulli p engine of
                (dies, engine') \<Rightarrow>
                  (upd (\<lambda>f. f\<lparr>next_event := (if dies then death else birth)\<rparr>) c1,
                   st2, engine')))"

subsection \<open>Genealogy\<close>

text \<open>The chain \<^verbatim>\<open>p = ancestor_; p; p = p->ancestor_\<close>.\<close>

fun ancestors :: "cell \<Rightarrow> cell list" where
  "ancestors (Cell f None) = []"
| "ancestors (Cell f (Some p)) = p # ancestors p"

definition traceback :: "cell \<Rightarrow> nat set" where
  "traceback c = set (cell_id (members c) # map (\<lambda>p. cell_id (members p)) (ancestors c))"

definition has_mutations_of :: "cell \<Rightarrow> nat list \<Rightarrow> nat list" where
  "has_mutations_of c mutants =
     (let genealogy = traceback c
      in map (\<lambda>mut. if mut \<in> genealogy then 1 else 0) mutants)"

text \<open>The first loop of \<^verbatim>\<open>Cell::branch_length\<close>: along the other cell's ancestors until one
  is found in the own genealogy; the result is \<open>(length, mrca)\<close>.\<close>

fun find_mrca :: "nat set \<Rightarrow> cell option \<Rightarrow> nat \<Rightarrow> nat \<Rightarrow> nat \<times> nat" where
  "find_mrca genealogy None len mrca = (len, mrca)"
| "find_mrca genealogy (Some (Cell f anc)) len mrca =
     (if cell_id f \<in> genealogy then (len, cell_id f)
      else find_mrca genealogy anc (len + 1) mrca)"

text \<open>The second loop, \<^verbatim>\<open>for (p = ancestor_; p->id_ > mrca; p = p->ancestor_) ++length\<close>. It
  tests \<^verbatim>\<open>p->id_\<close> without testing \<open>p\<close>: on a null pointer the result is \<open>None\<close>.\<close>

fun count_to_mrca :: "cell option \<Rightarrow> nat \<Rightarrow> nat \<Rightarrow> nat option" where
  "count_to_mrca None mrca len = None"
| "count_to_mrca (Some (Cell f anc)) mrca len =
     (if mrca < cell_id f then count_to_mrca anc mrca (len + 1)
      else Some len)"

definition branch_length :: "cell \<Rightarrow> cell \<Rightarrow> nat option" where
  "branch_length this other =
     (if cell_id (members this) = cell_id (members other) then Some 0
      else (case find_mrca (traceback this) (ancestor other) 2 1 of
              (len, mrca) \<Rightarrow> count_to_mrca (ancestor this) mrca len))"

text \<open>The ids along the ancestor chain, nearest ancestor first.\<close>

definition ancestor_ids :: "cell \<Rightarrow> nat list" where
  "ancestor_ids c = map (\<lambda>p. cell_id (members p)) (ancestors c)"

section \<open>Segregating sites (\<^verbatim>\<open>Tissue::write_segsites\<close>)\<close>

text \<open>
  \<^verbatim>\<open>wtl::transpose\<close>, \<^verbatim>\<open>wtl::sum\<close> and \<^verbatim>\<open>wtl::join\<close> belong to the utility library the
  sources include: the transpose of a rectangular matrix (an empty matrix is returned as
  it is), the sum of a vector, and the elements written to the stream with a separator
  between them. An \<^verbatim>\<open>unsigned\<close> is written in decimal.
\<close>

definition wtl_transpose :: "'a list list \<Rightarrow> 'a list list" where
  "wtl_transpose A =
     (case A of
        [] \<Rightarrow> []
      | row0 # _ \<Rightarrow> map (\<lambda>col. map (\<lambda>row. row ! col) A) [0..<length row0])"

definition digit :: "nat \<Rightarrow> char" where
  "digit d = ''0123456789'' ! d"

fun show_nat :: "nat \<Rightarrow> string" where
  "show_nat n = (if n < 10 then [digit n] else show_nat (n div 10) @ [digit (n mod 10)])"

fun wtl_join :: "nat list \<Rightarrow> string \<Rightarrow> string" where
  "wtl_join [] sep = []"
| "wtl_join [x] sep = show_nat x"
| "wtl_join (x # y # ys) sep = show_nat x @ sep @ wtl_join (y # ys) sep"

text \<open>The function returns the stream; the model returns the text it appends.\<close>

definition write_segsites :: "cell list \<Rightarrow> nat list \<Rightarrow> string" where
  "write_segsites samples mutants =
     (let sample_size = length samples;
          flags = map (\<lambda>cell. has_mutations_of cell mutants) samples;
          flags = wtl_transpose flags;
          segsites = filter (\<lambda>site. let daf = sum_list site in 0 < daf \<and> daf < sample_size) flags;
          s = length segsites;
          ost = [CHR 0x0A] @ ''//'' @ [CHR 0x0A] @ ''segsites: '' @ show_nat s @ [CHR 0x0A]
      in if 0 < s then
           (let segsites = wtl_transpose segsites
            in ost @ ''positions: '' @ wtl_join (replicate s 0) '' '' @ [CHR 0x0A]
                   @ concat (map (\<lambda>x. wtl_join x [] @ [CHR 0x0A]) segsites))
         else ost @ [CHR 0x0A])"

text \<open>
  The same output in the words of the specification. The derived-allele frequency of a
  mutant is the number of samples that carry it in their genealogy; the sites kept are the
  positions of the mutant list whose frequency is neither 0 nor the sample size; every
  sample contributes one row, its 0/1 digits at the kept sites.
\<close>

definition derived_allele_frequency :: "cell list \<Rightarrow> nat \<Rightarrow> nat" where
  "derived_allele_frequency samples mut = length (filter (\<lambda>cell. mut \<in> traceback cell) samples)"

definition segregating_sites :: "cell list \<Rightarrow> nat list \<Rightarrow> nat list" where
  "segregating_sites samples mutants =
     filter (\<lambda>i. 0 < derived_allele_frequency samples (mutants ! i)
                \<and> derived_allele_frequency samples (mutants ! i) < length samples)
       [0..<length mutants]"

definition segsites_text :: "cell list \<Rightarrow> nat list \<Rightarrow> string" where
  "segsites_text samples mutants =
     (let sites = segregating_sites samples mutants;
          s = length sites;
          head = [CHR 0x0A] @ ''//'' @ [CHR 0x0A] @ ''segsites: '' @ show_nat s @ [CHR 0x0A]
      in if s = 0 then head @ [CHR 0x0A]
         else head @ ''positions: '' @ wtl_join (replicate s 0) '' '' @ [CHR 0x0A]
              @ concat (map (\<lambda>cell.
                  concat (map (\<lambda>i. if mutants ! i \<in> traceback cell then ''1'' else ''0'') sites)
                  @ [CHR 0x0A]) samples))"

text \<open>The entry of a sample's genotype vector at a position of the mutant list.\<close>

definition site_flag :: "nat list \<Rightarrow> cell \<Rightarrow> nat \<Rightarrow> nat" where
  "site_flag mutants c i = (if mutants ! i \<in> traceback c then 1 else 0)"

section \<open>The tissue (tissue.hpp, tissue.cpp)\<close>

subsection \<open>The occupancy set\<close>

text \<open>
  \<open>extant_cells_\<close> is an unordered set of shared pointers that hashes and compares its
  elements by the coordinate of the cell pointed to. It is modelled by the list of the
  handles it holds, in the order of insertion, next to the store of the \<open>Cell\<close> objects; a
  lookup reads the coordinates through the handles, as the hash and equality functors do.
\<close>

record lattice =
  cells :: "cell store"
  extant_cells :: "nat list"

text \<open>\<^verbatim>\<open>x->coord()\<close> and \<^verbatim>\<open>x->set_coord(v)\<close>\<close>

definition coord_of :: "lattice \<Rightarrow> nat \<Rightarrow> coord" where
  "coord_of L x = coord (members (obj (cells L) x))"

definition set_cell_coord :: "nat \<Rightarrow> coord \<Rightarrow> lattice \<Rightarrow> lattice" where
  "set_cell_coord x v L = L\<lparr>cells := assign x (set_coord v (obj (cells L) x)) (cells L)\<rparr>"

text \<open>\<^verbatim>\<open>extant_cells_.find(key)\<close>, by the coordinate of the key.\<close>

definition find_cell :: "lattice \<Rightarrow> coord \<Rightarrow> nat option" where
  "find_cell L v = List.find (\<lambda>a. coord_of L a = v) (extant_cells L)"

text \<open>\<^verbatim>\<open>extant_cells_.insert(x).second\<close>: the insertion is refused when a cell with the
  coordinate of \<open>x\<close> is present.\<close>

definition extant_insert :: "nat \<Rightarrow> lattice \<Rightarrow> bool \<times> lattice" where
  "extant_insert x L =
     (case find_cell L (coord_of L x) of
        None \<Rightarrow> (True, L\<lparr>extant_cells := extant_cells L @ [x]\<rparr>)
      | Some existing \<Rightarrow> (False, L))"

text \<open>\<^verbatim>\<open>extant_cells_.erase(iterator)\<close> and \<^verbatim>\<open>extant_cells_.erase(key)\<close>\<close>

definition extant_erase :: "nat \<Rightarrow> lattice \<Rightarrow> lattice" where
  "extant_erase a L = L\<lparr>extant_cells := removeAll a (extant_cells L)\<rparr>"

definition extant_erase_key :: "nat \<Rightarrow> lattice \<Rightarrow> lattice" where
  "extant_erase_key x L =
     (case find_cell L (coord_of L x) of
        None \<Rightarrow> L
      | Some existing \<Rightarrow> extant_erase existing L)"

subsection \<open>Displacement\<close>

text \<open>\<^verbatim>\<open>Tissue::swap_existing\<close>: the result, the handle \<open>*x\<close> afterwards, and the lattice.\<close>

definition swap_existing :: "nat \<Rightarrow> lattice \<Rightarrow> bool \<times> nat \<times> lattice" where
  "swap_existing x L =
     (case find_cell L (coord_of L x) of
        None \<Rightarrow> (False, x, L\<lparr>extant_cells := extant_cells L @ [x]\<rparr>)
      | Some existing \<Rightarrow> (True, existing, snd (extant_insert x (extant_erase existing L))))"

text \<open>\<^verbatim>\<open>Tissue::push\<close>: \<^verbatim>\<open>do { moving->set_coord(moving->coord() + direction); }
  while (swap_existing(&moving));\<close>\<close>

partial_function (option) push :: "nat \<Rightarrow> coord \<Rightarrow> lattice \<Rightarrow> lattice option" where
  "push moving direction L =
     (let L1 = set_cell_coord moving (vadd (coord_of L moving) direction) L
      in case swap_existing moving L1 of
           (again, moving', L2) \<Rightarrow> if again then push moving' direction L2 else Some L2)"

text \<open>\<^verbatim>\<open>Tissue::steps_to_empty\<close>\<close>

partial_function (option) steps_to_empty_loop ::
  "lattice \<Rightarrow> coord \<Rightarrow> coord \<Rightarrow> nat \<Rightarrow> nat option" where
  "steps_to_empty_loop L current direction steps =
     (let current' = vadd current direction;
          steps' = steps + 1
      in if find_cell L current' \<noteq> None
         then steps_to_empty_loop L current' direction steps'
         else Some steps')"

definition steps_to_empty :: "lattice \<Rightarrow> coord \<Rightarrow> coord \<Rightarrow> nat option" where
  "steps_to_empty L current direction = steps_to_empty_loop L current direction 0"

text \<open>
  \<^verbatim>\<open>std::shuffle\<close>: a permutation chosen by the engine. The model inserts every element at
  a position drawn uniformly among those possible.
\<close>

fun shuffle :: "'a list \<Rightarrow> urbg \<Rightarrow> 'a list \<times> urbg" where
  "shuffle [] engine = ([], engine)"
| "shuffle (x # xs) engine =
     (case shuffle xs engine of
        (ys, engine1) \<Rightarrow>
          (case uniform_int_distribution (length ys + 1) engine1 of
             (i, engine2) \<Rightarrow> (take i ys @ x # drop i ys, engine2)))"

text \<open>\<^verbatim>\<open>std::numeric_limits<size_t>::max()\<close>\<close>

definition SIZE_MAX :: nat where
  "SIZE_MAX = 2 ^ 64 - 1"

text \<open>The loop of \<^verbatim>\<open>Tissue::to_nearest_empty\<close> over the shuffled directions.\<close>

fun nearest_loop :: "lattice \<Rightarrow> coord \<Rightarrow> coord list \<Rightarrow> nat \<Rightarrow> coord \<Rightarrow> coord option" where
  "nearest_loop L current [] least_steps best_direction = Some best_direction"
| "nearest_loop L current (d # ds) least_steps best_direction =
     (case steps_to_empty L current d of
        None \<Rightarrow> None
      | Some n \<Rightarrow>
          if n < least_steps then nearest_loop L current ds n d
          else nearest_loop L current ds least_steps best_direction)"

definition to_nearest_empty ::
  "Coord \<Rightarrow> lattice \<Rightarrow> coord \<Rightarrow> nat \<Rightarrow> urbg \<Rightarrow> (coord \<times> urbg) option" where
  "to_nearest_empty coord_func L current search_max engine =
     (case shuffle (directions coord_func) engine of
        (ds, engine') \<Rightarrow>
          (let ds = (if search_max < length ds then take search_max ds else ds)
           in map_option (\<lambda>best_direction. (best_direction, engine'))
                (nearest_loop L current ds SIZE_MAX [])))"

text \<open>\<^verbatim>\<open>Tissue::push_minimum_drag\<close>; \<open>to_nearest_empty\<close> is called with its default
  \<open>search_max = 26\<close>.\<close>

partial_function (option) push_minimum_drag ::
  "Coord \<Rightarrow> nat \<Rightarrow> lattice \<Rightarrow> urbg \<Rightarrow> (lattice \<times> urbg) option" where
  "push_minimum_drag coord_func moving L engine =
     (case to_nearest_empty coord_func L (coord_of L moving) 26 engine of
        None \<Rightarrow> None
      | Some (direction, engine') \<Rightarrow>
          (let L1 = set_cell_coord moving (vadd (coord_of L moving) direction) L
           in case swap_existing moving L1 of
                (again, moving', L2) \<Rightarrow>
                  if again then push_minimum_drag coord_func moving' L2 engine'
                  else Some (L2, engine')))"

text \<open>\<^verbatim>\<open>random_direction\<close> and \<^verbatim>\<open>Coord::random_neighbor\<close>: the direction at an index drawn
  uniformly from \<open>0 .. max_neighbors_ - 1\<close>; \<^verbatim>\<open>Coord::neighbors\<close>.\<close>

definition random_direction :: "Coord \<Rightarrow> urbg \<Rightarrow> coord \<times> urbg" where
  "random_direction coord_func engine =
     (case uniform_int_distribution (max_neighbors coord_func) engine of
        (i, engine') \<Rightarrow> (directions coord_func ! i, engine'))"

definition random_neighbor :: "Coord \<Rightarrow> coord \<Rightarrow> urbg \<Rightarrow> coord \<times> urbg" where
  "random_neighbor coord_func v engine =
     (case random_direction coord_func engine of (d, engine') \<Rightarrow> (vadd v d, engine'))"

definition neighbors :: "Coord \<Rightarrow> coord \<Rightarrow> coord list" where
  "neighbors coord_func v = map (\<lambda>d. vadd d v) (directions coord_func)"

text \<open>\<^verbatim>\<open>Tissue::insert_adjacent\<close>: the loop over the shuffled neighbours, then the whole
  function.\<close>

fun try_neighbors :: "nat \<Rightarrow> coord list \<Rightarrow> lattice \<Rightarrow> bool \<times> lattice" where
  "try_neighbors moving [] L = (False, L)"
| "try_neighbors moving (x # xs) L =
     (case extant_insert moving (set_cell_coord moving x L) of
        (inserted, L1) \<Rightarrow> if inserted then (True, L1) else try_neighbors moving xs L1)"

definition insert_adjacent ::
  "Coord \<Rightarrow> nat \<Rightarrow> lattice \<Rightarrow> urbg \<Rightarrow> (bool \<times> lattice) \<times> urbg" where
  "insert_adjacent coord_func moving L engine =
     (let present_coord = coord_of L moving
      in case shuffle (neighbors coord_func present_coord) engine of
           (nbrs, engine') \<Rightarrow>
             (case try_neighbors moving nbrs L of
                (inserted, L1) \<Rightarrow>
                  if inserted then ((True, L1), engine')
                  else ((False, set_cell_coord moving present_coord L1), engine')))"

text \<open>\<^verbatim>\<open>Tissue::stroll\<close>\<close>

partial_function (option) stroll ::
  "Coord \<Rightarrow> nat \<Rightarrow> coord \<Rightarrow> lattice \<Rightarrow> urbg \<Rightarrow> (lattice \<times> urbg) option" where
  "stroll coord_func moving direction L engine =
     (case insert_adjacent coord_func moving L engine of
        ((inserted, L1), engine1) \<Rightarrow>
          if inserted then Some (L1, engine1)
          else (let L2 = set_cell_coord moving (vadd (coord_of L1 moving) direction) L1
                in case swap_existing moving L2 of
                     (again, moving', L3) \<Rightarrow> stroll coord_func moving' direction L3 engine1))"

text \<open>
  \<^verbatim>\<open>Tissue::roulette_direction\<close>. \<^verbatim>\<open>wtl::roulette_select\<close> is library code: it returns an
  index with probability proportional to its weight, modelled by the first index whose
  cumulative weight exceeds the canonical variate times the total.
\<close>

fun roulette_loop ::
  "lattice \<Rightarrow> coord \<Rightarrow> coord list \<Rightarrow> dbl list \<Rightarrow> (coord + dbl list) option" where
  "roulette_loop L current [] roulette = Some (Inr roulette)"
| "roulette_loop L current (d # ds) roulette =
     (case steps_to_empty L current d of
        None \<Rightarrow> None
      | Some l \<Rightarrow>
          if l = 0 then Some (Inl d)
          else roulette_loop L current ds (roulette @ [ddiv (Fin 1) (Fin (real l))]))"

fun roulette_index :: "dbl list \<Rightarrow> dbl \<Rightarrow> dbl \<Rightarrow> nat" where
  "roulette_index [] dart acc = 0"
| "roulette_index (w # ws) dart acc =
     (if dlt dart (dadd acc w) then 0 else Suc (roulette_index ws dart (dadd acc w)))"

definition roulette_select :: "dbl list \<Rightarrow> urbg \<Rightarrow> nat \<times> urbg" where
  "roulette_select roulette engine =
     (case generate_canonical engine of
        (u, engine') \<Rightarrow>
          (roulette_index roulette (dmul (Fin u) (foldl dadd (Fin 0) roulette)) (Fin 0),
           engine'))"

definition roulette_direction ::
  "Coord \<Rightarrow> lattice \<Rightarrow> coord \<Rightarrow> urbg \<Rightarrow> (coord \<times> urbg) option" where
  "roulette_direction coord_func L current engine =
     (case shuffle (directions coord_func) engine of
        (ds, engine1) \<Rightarrow>
          (case roulette_loop L current ds [] of
             None \<Rightarrow> None
           | Some (Inl d) \<Rightarrow> Some (d, engine1)
           | Some (Inr roulette) \<Rightarrow>
               (case roulette_select roulette engine1 of
                  (i, engine2) \<Rightarrow> Some (ds ! i, engine2))))"

text \<open>\<^verbatim>\<open>Tissue::num_empty_neighbors\<close>, a \<^verbatim>\<open>uint_fast8_t\<close> counter, and
  \<^verbatim>\<open>Tissue::proportion_empty_neighbors\<close>.\<close>

definition num_empty_neighbors :: "Coord \<Rightarrow> lattice \<Rightarrow> coord \<Rightarrow> 8 word" where
  "num_empty_neighbors coord_func L v =
     of_nat (length (filter (\<lambda>d. find_cell L (vadd v d) = None) (directions coord_func)))"

definition proportion_empty_neighbors :: "Coord \<Rightarrow> lattice \<Rightarrow> coord \<Rightarrow> dbl" where
  "proportion_empty_neighbors coord_func L v =
     ddiv (Fin (real (unat (num_empty_neighbors coord_func L v))))
          (Fin (real (length (directions coord_func))))"

text \<open>\<^verbatim>\<open>Tissue::migrate\<close>\<close>

definition migrate :: "Coord \<Rightarrow> nat \<Rightarrow> lattice \<Rightarrow> urbg \<Rightarrow> lattice \<times> urbg" where
  "migrate coord_func moving L engine =
     (let L1 = extant_erase_key moving L;
          orig_pos = coord_of L1 moving
      in case random_neighbor coord_func orig_pos engine of
           (v, engine') \<Rightarrow>
             (let L2 = set_cell_coord moving v L1
              in case find_cell L2 v of
                   None \<Rightarrow> (L2\<lparr>extant_cells := extant_cells L2 @ [moving]\<rparr>, engine')
                 | Some existing \<Rightarrow>
                     (let L3 = extant_erase existing L2;
                          L4 = snd (extant_insert moving L3);
                          L5 = set_cell_coord existing orig_pos L4
                      in (snd (extant_insert existing L5), engine'))))"

subsection \<open>The insert function\<close>

text \<open>
  The nine closures of \<^verbatim>\<open>Tissue::init_insert_function\<close>, named by local density effect
  and displacement path. Any other pair of keys makes \<^verbatim>\<open>swtch.at\<close> throw, which is turned
  into a \<^verbatim>\<open>std::runtime_error\<close>: \<open>None\<close>.
\<close>

datatype insert_function =
    const_random | const_mindrag | const_minstraight | const_roulette | const_stroll
  | step_random | step_mindrag | linear_random | linear_mindrag

definition init_insert_function :: "string \<Rightarrow> string \<Rightarrow> insert_function option" where
  "init_insert_function local_density_effect displacement_path =
     (if local_density_effect = ''const'' then
        (if displacement_path = ''random'' then Some const_random
         else if displacement_path = ''mindrag'' then Some const_mindrag
         else if displacement_path = ''minstraight'' then Some const_minstraight
         else if displacement_path = ''roulette'' then Some const_roulette
         else if displacement_path = ''stroll'' then Some const_stroll
         else None)
      else if local_density_effect = ''step'' then
        (if displacement_path = ''random'' then Some step_random
         else if displacement_path = ''mindrag'' then Some step_mindrag
         else None)
      else if local_density_effect = ''linear'' then
        (if displacement_path = ''random'' then Some linear_random
         else if displacement_path = ''mindrag'' then Some linear_mindrag
         else None)
      else None)"

definition insert_daughter ::
  "insert_function \<Rightarrow> Coord \<Rightarrow> nat \<Rightarrow> lattice \<Rightarrow> urbg \<Rightarrow> ((bool \<times> lattice) \<times> urbg) option" where
  "insert_daughter f coord_func daughter L engine =
     (case f of
        const_random \<Rightarrow>
          (case random_direction coord_func engine of
             (d, engine1) \<Rightarrow> map_option (\<lambda>L1. ((True, L1), engine1)) (push daughter d L))
      | const_mindrag \<Rightarrow>
          map_option (\<lambda>(L1, engine1). ((True, L1), engine1))
            (push_minimum_drag coord_func daughter L engine)
      | const_minstraight \<Rightarrow>
          (case to_nearest_empty coord_func L (coord_of L daughter) 26 engine of
             None \<Rightarrow> None
           | Some (d, engine1) \<Rightarrow>
               map_option (\<lambda>L1. ((True, L1), engine1)) (push daughter d L))
      | const_roulette \<Rightarrow>
          (case roulette_direction coord_func L (coord_of L daughter) engine of
             None \<Rightarrow> None
           | Some (d, engine1) \<Rightarrow>
               map_option (\<lambda>L1. ((True, L1), engine1)) (push daughter d L))
      | const_stroll \<Rightarrow>
          (case random_direction coord_func engine of
             (d, engine1) \<Rightarrow>
               map_option (\<lambda>(L1, engine2). ((True, L1), engine2))
                 (stroll coord_func daughter d L engine1))
      | step_random \<Rightarrow>
          if num_empty_neighbors coord_func L (coord_of L daughter) = 0
          then Some ((False, L), engine)
          else (case random_direction coord_func engine of
                  (d, engine1) \<Rightarrow>
                    map_option (\<lambda>L1. ((True, L1), engine1)) (push daughter d L))
      | step_mindrag \<Rightarrow> Some (insert_adjacent coord_func daughter L engine)
      | linear_random \<Rightarrow>
          (let prob = proportion_empty_neighbors coord_func L (coord_of L daughter)
           in case generate_canonical engine of
                (u, engine1) \<Rightarrow>
                  if dlt (Fin u) prob then
                    (case random_direction coord_func engine1 of
                       (d, engine2) \<Rightarrow>
                         map_option (\<lambda>L1. ((True, L1), engine2)) (push daughter d L))
                  else Some ((False, L), engine1))
      | linear_mindrag \<Rightarrow>
          (case random_neighbor coord_func (coord_of L daughter) engine of
             (v, engine1) \<Rightarrow>
               Some (extant_insert daughter (set_cell_coord daughter v L), engine1)))"

subsection \<open>The tissue and its event queue\<close>

text \<open>
  The data members of \<open>Tissue\<close>. The two members the displacement functions work on are
  grouped in \<open>lattice\<close>. \<open>rates\<close> is the store of the shared \<open>EventRates\<close> objects.
  \<open>queue\<close> is the \<^verbatim>\<open>std::multimap<double, std::shared_ptr<Cell>>\<close>, an association list
  kept in key order. \<open>history\<close> holds cells that are never written again, by value. The
  two string streams are lists of the lines written to them: a snapshot line is the time
  and the cell with the rates it prints. The engine is global in the source and is passed
  next to the tissue.
\<close>

record tissue =
  lattice :: lattice
  rates :: "EventRates store"
  id_tail :: nat
  queue :: "(dbl \<times> nat) list"
  time :: dbl
  i_snapshot :: nat
  history :: "cell list"
  snapshots :: "(dbl \<times> cell \<times> EventRates) list"
  drivers :: "driver_line list"

text \<open>\<^verbatim>\<open>double positional_value(const std::valarray<int>&) const {return 1.0;}\<close>\<close>

definition positional_value :: "coord \<Rightarrow> dbl" where
  "positional_value v = Fin 1"

text \<open>\<^verbatim>\<open>queue_.emplace_hint(queue_.end(), key, x)\<close>: the entry goes as close to the end as
  the order allows, behind the entries whose key is not greater.\<close>

fun queue_emplace :: "dbl \<Rightarrow> nat \<Rightarrow> (dbl \<times> nat) list \<Rightarrow> (dbl \<times> nat) list" where
  "queue_emplace key x [] = [(key, x)]"
| "queue_emplace key x ((key', x') # q) =
     (if dlt key key' then (key, x) # (key', x') # q
      else (key', x') # queue_emplace key x q)"

text \<open>\<^verbatim>\<open>Tissue::queue_push\<close>\<close>

definition queue_push :: "cell_params \<Rightarrow> nat \<Rightarrow> tissue \<times> urbg \<Rightarrow> tissue \<times> urbg" where
  "queue_push P x = (\<lambda>(T, engine).
     (case delta_time P (rates T) (obj (cells (lattice T)) x)
             (positional_value (coord_of (lattice T) x)) engine of
        (dt, c, engine') \<Rightarrow>
          (T\<lparr>lattice := (lattice T)\<lparr>cells := assign x c (cells (lattice T))\<rparr>,
             queue := queue_emplace (dadd dt (time T)) x (queue T)\<rparr>,
           engine')))"

text \<open>\<^verbatim>\<open>Tissue::snapshots_append\<close>\<close>

definition snapshots_append :: "tissue \<Rightarrow> tissue" where
  "snapshots_append T =
     T\<lparr>snapshots := snapshots T @
          map (\<lambda>p. (time T, obj (cells (lattice T)) p,
                     obj (rates T) (event_rates (members (obj (cells (lattice T)) p)))))
            (extant_cells (lattice T))\<rparr>"

text \<open>
  Modelled from the spec: \<open>Cell::differentiate\<close>, which \<open>Tissue::grow\<close> calls on the
  daughter, is not among the sources. The specification describes it as the step that
  downgrades a stem copy to non-stem with probability \<open>1 - p_s\<close>.
\<close>

definition differentiate :: "cell_params \<Rightarrow> cell \<Rightarrow> urbg \<Rightarrow> cell \<times> urbg" where
  "differentiate P c engine =
     (if cell_type (members c) = stem then
        (case bernoulli (Fin (PROB_SYMMETRIC_DIVISION P)) engine of
           (symmetric, engine') \<Rightarrow>
             (if \<not> symmetric then upd (\<lambda>f. f\<lparr>cell_type := nonstem\<rparr>) c else c, engine'))
      else (c, engine))"

subsection \<open>\<^verbatim>\<open>Tissue::grow\<close>\<close>

text \<open>The parameters and local variables of \<open>grow\<close> (the iteration counter, which only
  paces a progress message, is left out).\<close>

record grow_frame =
  max_size :: nat
  max_time :: dbl
  snapshot_interval :: dbl
  recording_early_growth :: nat
  mutation_timing :: nat
  success :: bool
  time_snapshot :: dbl

datatype 'a loop_step = Continue 'a | Break 'a

text \<open>The end of the loop body: the snapshot of early growth.\<close>

definition write_early_growth :: "tissue \<times> grow_frame \<times> urbg \<Rightarrow> tissue \<times> grow_frame \<times> urbg" where
  "write_early_growth = (\<lambda>(T, F, engine).
     if length (extant_cells (lattice T)) < recording_early_growth F
     then (snapshots_append T, F, engine)
     else (T, F\<lparr>recording_early_growth := 0\<rparr>, engine))"

text \<open>The branch taken when \<open>insert(daughter)\<close> has succeeded: first the statements up
  to the forced mutation, which archive the ancestor, issue the ids and mutate the two
  cells, then the two calls of \<open>queue_push\<close>.\<close>

definition divide_cells ::
  "cell_params \<Rightarrow> nat \<Rightarrow> nat \<Rightarrow> tissue \<times> grow_frame \<times> urbg \<Rightarrow> tissue \<times> grow_frame \<times> urbg" where
  "divide_cells P mother daughter = (\<lambda>(T, F, engine).
     (let (copy, engine1) = Cell_copy P (obj (cells (lattice T)) mother) engine;
          anc = set_time_of_death (time T) copy;
          T1 = T\<lparr>history := history T @ [anc], id_tail := id_tail T + 1\<rparr>;
          m1 = set_time_of_birth (time T1) (id_tail T1) anc (obj (cells (lattice T1)) mother);
          (d1, engine2) = differentiate P (obj (cells (lattice T1)) daughter) engine1;
          T2 = T1\<lparr>id_tail := id_tail T1 + 1\<rparr>;
          d2 = set_time_of_birth (time T2) (id_tail T2) anc d1;
          (oss_m, m2, rates1, engine3) = mutate P m1 (rates T2) engine2;
          (oss_d, d3, rates2, engine4) = mutate P d2 rates1 engine3;
          T3 = T2\<lparr>drivers := drivers T2 @ oss_m @ oss_d\<rparr>;
          (T4, F1, d5, rates4, engine6) =
            (if mutation_timing F < length (extant_cells (lattice T3))
             then (let (oss_f, d4, rates3, engine5) = force_mutate P d3 rates2 engine4
                   in (T3\<lparr>drivers := drivers T3 @ oss_f\<rparr>,
                       F\<lparr>mutation_timing := SIZE_MAX\<rparr>, d4, rates3, engine5))
             else (T3, F, d3, rates2, engine4))
      in (T4\<lparr>rates := rates4,
             lattice := (lattice T4)\<lparr>cells :=
               assign daughter d5 (assign mother m2 (cells (lattice T4)))\<rparr>\<rparr>,
          F1, engine6)))"

definition divide ::
  "cell_params \<Rightarrow> nat \<Rightarrow> nat \<Rightarrow> tissue \<times> grow_frame \<times> urbg \<Rightarrow> tissue \<times> grow_frame \<times> urbg" where
  "divide P mother daughter s =
     (let (T, F, engine) = divide_cells P mother daughter s;
          (T1, engine1) = queue_push P daughter (queue_push P mother (T, engine))
      in (T1, F, engine1))"

text \<open>The periodic snapshot at the head of the loop body.\<close>

definition periodic_snapshot :: "tissue \<times> grow_frame \<Rightarrow> tissue \<times> grow_frame" where
  "periodic_snapshot = (\<lambda>(T, F).
     if dlt (time_snapshot F) (time T)
     then (let T1 = (snapshots_append T)\<lparr>i_snapshot := i_snapshot T + 1\<rparr>
           in (T1, F\<lparr>time_snapshot := dmul (Fin (real (i_snapshot T1))) (snapshot_interval F)\<rparr>))
     else (T, F))"

text \<open>The three branches on \<^verbatim>\<open>mother->next_event()\<close>. \<open>None\<close> stands for an insert
  function that does not return.\<close>

definition birth_event ::
  "cell_params \<Rightarrow> Coord \<Rightarrow> insert_function \<Rightarrow> nat \<Rightarrow> tissue \<times> grow_frame \<times> urbg \<Rightarrow>
   (tissue \<times> grow_frame \<times> urbg) loop_step option" where
  "birth_event P coord_func f mother = (\<lambda>(T, F, engine).
     (let (copy, engine1) = Cell_copy P (obj (cells (lattice T)) mother) engine;
          (daughter, cells1) = make_shared copy (cells (lattice T))
      in case insert_daughter f coord_func daughter ((lattice T)\<lparr>cells := cells1\<rparr>) engine1 of
           None \<Rightarrow> None
         | Some ((inserted, L), engine2) \<Rightarrow>
             if inserted
             then Some (Continue (write_early_growth
                    (divide P mother daughter (T\<lparr>lattice := L\<rparr>, F, engine2))))
             else (let (T1, engine3) = queue_push P mother (T\<lparr>lattice := L\<rparr>, engine2)
                   in Some (Continue (T1, F, engine3)))))"

definition death_event ::
  "nat \<Rightarrow> tissue \<times> grow_frame \<times> urbg \<Rightarrow> (tissue \<times> grow_frame \<times> urbg) loop_step" where
  "death_event mother = (\<lambda>(T, F, engine).
     (let m = set_time_of_death (time T) (obj (cells (lattice T)) mother);
          L = (lattice T)\<lparr>cells := assign mother m (cells (lattice T))\<rparr>;
          T1 = T\<lparr>history := history T @ [m], lattice := extant_erase_key mother L\<rparr>
      in if extant_cells (lattice T1) = []
         then Break (T1, F, engine)
         else Continue (write_early_growth (T1, F, engine))))"

definition migration_event ::
  "cell_params \<Rightarrow> Coord \<Rightarrow> nat \<Rightarrow> tissue \<times> grow_frame \<times> urbg \<Rightarrow>
   (tissue \<times> grow_frame \<times> urbg) loop_step" where
  "migration_event P coord_func mother = (\<lambda>(T, F, engine).
     (let (L, engine1) = migrate coord_func mother (lattice T) engine;
          (T1, engine2) = queue_push P mother (T\<lparr>lattice := L\<rparr>, engine1)
      in Continue (write_early_growth (T1, F, engine2))))"

text \<open>
  One iteration of the \<^verbatim>\<open>while (true)\<close> loop. \<open>None\<close> also stands for the dereference
  of \<^verbatim>\<open>queue_.begin()\<close> on an empty queue.
\<close>

definition grow_step ::
  "cell_params \<Rightarrow> Coord \<Rightarrow> insert_function \<Rightarrow> tissue \<times> grow_frame \<times> urbg \<Rightarrow>
   (tissue \<times> grow_frame \<times> urbg) loop_step option" where
  "grow_step P coord_func f = (\<lambda>(T, F, engine).
     (case queue T of
        [] \<Rightarrow> None
      | (key, mother) # rest \<Rightarrow>
          (let T1 = T\<lparr>time := key\<rparr>
           in if dlt (max_time F) (time T1) \<or> max_size F \<le> length (extant_cells (lattice T1))
              then Some (Break (T1, F\<lparr>success := True\<rparr>, engine))
              else
                (let (T2, F1) = periodic_snapshot (T1, F);
                     T3 = T2\<lparr>queue := rest\<rparr>;
                     event = next_event (members (obj (cells (lattice T3)) mother))
                 in if event = birth then birth_event P coord_func f mother (T3, F1, engine)
                    else if event = death then Some (death_event mother (T3, F1, engine))
                    else Some (migration_event P coord_func mother (T3, F1, engine))))))"

text \<open>The loop: \<open>n\<close> iterations from a state, stopping at a \<^verbatim>\<open>break\<close>.\<close>

fun grow_steps ::
  "cell_params \<Rightarrow> Coord \<Rightarrow> insert_function \<Rightarrow> nat \<Rightarrow> tissue \<times> grow_frame \<times> urbg \<Rightarrow>
   (tissue \<times> grow_frame \<times> urbg) loop_step option" where
  "grow_steps P coord_func f 0 s = Some (Continue s)"
| "grow_steps P coord_func f (Suc n) s =
     (case grow_step P coord_func f s of
        None \<Rightarrow> None
      | Some (Break s') \<Rightarrow> Some (Break s')
      | Some (Continue s') \<Rightarrow> grow_steps P coord_func f n s')"

subsection \<open>Notions used in the proofs about displacement\<close>

text \<open>The set of occupied sites, and the site reached from \<open>c\<close> after \<open>j\<close> steps along
  \<open>d\<close>.\<close>

definition occupied :: "lattice \<Rightarrow> coord set" where
  "occupied L = coord_of L ` set (extant_cells L)"

definition ray :: "coord \<Rightarrow> coord \<Rightarrow> nat \<Rightarrow> coord" where
  "ray c d j = map2 (\<lambda>x y. x + int j * y) c d"

text \<open>From \<open>c\<close> along \<open>d\<close>, exactly \<open>k\<close> occupied sites come before the first empty one.\<close>

definition blocked :: "lattice \<Rightarrow> coord \<Rightarrow> coord \<Rightarrow> nat \<Rightarrow> bool" where
  "blocked L c d k \<longleftrightarrow>
     ray c d (Suc k) \<notin> occupied L \<and> (\<forall>j<k. ray c d (Suc j) \<in> occupied L)"

text \<open>The number of steps from \<open>c\<close> along \<open>d\<close> to the first empty site.\<close>

definition nsteps :: "lattice \<Rightarrow> coord \<Rightarrow> coord \<Rightarrow> nat" where
  "nsteps L c d = Suc (LEAST k. ray c d (Suc k) \<notin> occupied L)"

text \<open>A direction of \<open>n\<close> components that is not the zero vector; a geometry whose
  direction list is not empty, is not longer than the default \<open>search_max\<close> of
  \<open>to_nearest_empty\<close>, and holds such directions only.\<close>

definition proper_direction :: "nat \<Rightarrow> coord \<Rightarrow> bool" where
  "proper_direction n d \<longleftrightarrow> length d = n \<and> (\<exists>x \<in> set d. x \<noteq> 0)"

definition proper_geometry :: "Coord \<Rightarrow> nat \<Rightarrow> bool" where
  "proper_geometry g n \<longleftrightarrow>
     directions g \<noteq> [] \<and> length (directions g) \<le> 26
     \<and> (\<forall>d \<in> set (directions g). proper_direction n d)"

subsection \<open>The invariant of the event queue\<close>

text \<open>The simulation time is not negative, the queue is in key order, and no key is less
  than the simulation time (\<open>dle\<close> is the comparison \<^verbatim>\<open><=\<close> of doubles, so neither side is
  NaN).\<close>

definition queue_inv :: "tissue \<Rightarrow> bool" where
  "queue_inv T \<longleftrightarrow>
     dle (Fin 0) (time T)
     \<and> sorted_wrt (\<lambda>a b. dle (fst a) (fst b)) (queue T)
     \<and> (\<forall>entry \<in> set (queue T). dle (time T) (fst entry))"

text \<open>The state a loop step carries.\<close>

fun loop_state :: "'a loop_step \<Rightarrow> 'a" where
  "loop_state (Continue s) = s"
| "loop_state (Break s) = s"

section \<open>Concrete inputs\<close>

text \<open>
  The inputs at which the theorems below are instantiated. \<open>example_params\<close> are driver
  parameters under which every division hits the death trait (\<open>RATE_DEATH = 1\<close>, so the
  Bernoulli trial succeeds without a draw) with the coefficient \<open>s = 0\<close> (mean and
  standard deviation 0, the values the distributions are constructed with in cell.cpp).
\<close>

definition example_params :: cell_params where
  "example_params = \<lparr>GAMMA_SHAPE = 1, PROB_SYMMETRIC_DIVISION = 1,
     RATE_BIRTH = 0, RATE_DEATH = 1, RATE_MIGRA = 0,
     MEAN_BIRTH = 0, MEAN_DEATH = 0, MEAN_MIGRA = 0,
     SD_BIRTH = 0, SD_DEATH = 0, SD_MIGRA = 0\<rparr>"

definition example_rates :: EventRates where
  "example_rates =
     \<lparr>birth_rate = Fin 1, death_rate = Fin 1, death_prob = Fin (1 / 4), migra_rate = Fin 0\<rparr>"

definition example_store :: "EventRates store" where
  "example_store = \<lparr>obj = (\<lambda>h. example_rates), top = 1\<rparr>"

definition example_cell :: cell where
  "example_cell = Cell \<lparr>coord = [0, 0], event_rates = 0, cell_type = stem,
     proliferation_capacity = 10, next_event = birth, elapsed = Fin 0, cell_id = 1,
     time_of_birth = Fin 0, time_of_death = Fin 0\<rparr> None"

definition example_engine :: urbg where
  "example_engine = \<lparr>variates = (\<lambda>n. 0), normals = (\<lambda>n. 0), pos = 0\<rparr>"

text \<open>
  A non-stem cell that has used up its proliferation capacity, in a tissue without death
  and migration (\<open>quiescent_rates\<close>) and in one where the death and migration rates are
  both 1 (\<open>tied_rates\<close>); \<open>tied_engine\<close> yields the same exponential variate twice.
\<close>

definition quiescent_rates :: EventRates where
  "quiescent_rates =
     \<lparr>birth_rate = Fin 1, death_rate = Fin 0, death_prob = Fin 0, migra_rate = Fin 0\<rparr>"

definition quiescent_store :: "EventRates store" where
  "quiescent_store = \<lparr>obj = (\<lambda>h. quiescent_rates), top = 1\<rparr>"

definition quiescent_cell :: cell where
  "quiescent_cell = Cell \<lparr>coord = [0, 0], event_rates = 0, cell_type = nonstem,
     proliferation_capacity = 0, next_event = birth, elapsed = Fin 0, cell_id = 1,
     time_of_birth = Fin 0, time_of_death = Fin 0\<rparr> None"

definition tied_rates :: EventRates where
  "tied_rates =
     \<lparr>birth_rate = Fin 1, death_rate = Fin 1, death_prob = Fin 0, migra_rate = Fin 1\<rparr>"

definition tied_store :: "EventRates store" where
  "tied_store = \<lparr>obj = (\<lambda>h. tied_rates), top = 1\<rparr>"

definition tied_engine :: urbg where
  "tied_engine = \<lparr>variates = (\<lambda>n. 3), normals = (\<lambda>n. 0), pos = 0\<rparr>"

text \<open>A stem cell whose birth rate is 0, with death at rate 1.\<close>

definition barren_rates :: EventRates where
  "barren_rates =
     \<lparr>birth_rate = Fin 0, death_rate = Fin 1, death_prob = Fin 0, migra_rate = Fin 0\<rparr>"

definition barren_store :: "EventRates store" where
  "barren_store = \<lparr>obj = (\<lambda>h. barren_rates), top = 1\<rparr>"

text \<open>Rates that are all 0.\<close>

definition idle_rates :: EventRates where
  "idle_rates =
     \<lparr>birth_rate = Fin 0, death_rate = Fin 0, death_prob = Fin 0, migra_rate = Fin 0\<rparr>"

definition idle_store :: "EventRates store" where
  "idle_store = \<lparr>obj = (\<lambda>h. idle_rates), top = 1\<rparr>"

text \<open>A genealogy of three generations: the root (id 1), its child (id 2) and a child of
  that child (id 4), and a second line with the ids 3 and 5.\<close>

definition root_cell :: cell where
  "root_cell = Cell \<lparr>coord = [0, 0], event_rates = 0, cell_type = stem,
     proliferation_capacity = 10, next_event = birth, elapsed = Fin 0, cell_id = 1,
     time_of_birth = Fin 0, time_of_death = Fin 0\<rparr> None"

definition parent_cell :: cell where
  "parent_cell = Cell ((members root_cell)\<lparr>cell_id := 2\<rparr>) (Some root_cell)"

definition child_cell :: cell where
  "child_cell = Cell ((members root_cell)\<lparr>cell_id := 4\<rparr>) (Some parent_cell)"

definition aunt_cell :: cell where
  "aunt_cell = Cell ((members root_cell)\<lparr>cell_id := 3\<rparr>) (Some root_cell)"

definition cousin_cell :: cell where
  "cousin_cell = Cell ((members root_cell)\<lparr>cell_id := 5\<rparr>) (Some aunt_cell)"

text \<open>The object \<^verbatim>\<open>Hexagonal(2)\<close>.\<close>

definition hexagonal_2d :: Coord where
  "hexagonal_2d = \<lparr>dynamic_class = Hexagonal, dimensions = 2,
     directions = [[-1, 0], [-1, 1], [0, -1], [0, 1], [1, -1], [1, 0]], max_neighbors = 6\<rparr>"

text \<open>
  The object \<^verbatim>\<open>Neumann(2)\<close>, and a tissue of two cells side by side at simulation time 1:
  the cell at the origin is due to divide at time 2, its neighbour at time 3, and the next
  periodic snapshot is due after time 1. Every variate of \<open>late_engine\<close> is 9/10.
\<close>

definition neumann_2d :: Coord where
  "neumann_2d = \<lparr>dynamic_class = Neumann, dimensions = 2,
     directions = [[0, 1], [1, 0], [-1, 0], [0, -1]], max_neighbors = 4\<rparr>"

definition pair_cells :: "cell store" where
  "pair_cells = \<lparr>obj = (\<lambda>h. if h = 0 then example_cell else set_coord [0, 1] example_cell),
     top = 2\<rparr>"

definition pair_lattice :: lattice where
  "pair_lattice = \<lparr>cells = pair_cells, extant_cells = [0, 1]\<rparr>"

definition pair_tissue :: tissue where
  "pair_tissue = \<lparr>lattice = pair_lattice, rates = example_store, id_tail = 3,
     queue = [(Fin 2, 0), (Fin 3, 1)], time = Fin 1, i_snapshot = 1, history = [],
     snapshots = [], drivers = []\<rparr>"

definition pair_frame :: grow_frame where
  "pair_frame = \<lparr>max_size = 10, max_time = Fin 100, snapshot_interval = Fin 1,
     recording_early_growth = 0, mutation_timing = 100, success = False,
     time_snapshot = Fin 1\<rparr>"

definition late_engine :: urbg where
  "late_engine = \<lparr>variates = (\<lambda>n. 9 / 10), normals = (\<lambda>n. 0), pos = 0\<rparr>"


section \<open>Unfolding rules\<close>

lemmas dbl_defs = dle_def dsub_def dmax_def signed_inf_def

lemmas engine_defs = draw_def generate_canonical_def bernoulli_def normal_distribution_def
  gamma_distribution_def exponential_distribution_def uniform_int_distribution_def

lemmas store_defs = make_shared_def assign_def copy_rates_def upd_def

lemmas example_defs = example_params_def example_rates_def example_store_def
  example_cell_def example_engine_def quiescent_rates_def quiescent_store_def
  quiescent_cell_def tied_rates_def tied_store_def tied_engine_def
  barren_rates_def barren_store_def idle_rates_def idle_store_def

lemmas genealogy_defs = root_cell_def parent_cell_def child_cell_def aunt_cell_def cousin_cell_def

lemmas pair_defs = neumann_2d_def pair_cells_def pair_lattice_def pair_tissue_def
  pair_frame_def late_engine_def

lemmas grow_defs = grow_step_def periodic_snapshot_def snapshots_append_def
  birth_event_def death_event_def migration_event_def write_early_growth_def
  Cell_copy_def insert_daughter_def proportion_empty_neighbors_def num_empty_neighbors_def
  find_cell_def coord_of_def set_coord_def set_time_of_death_def vadd_def queue_push_def
  delta_time_def sample_times_def gamma_scale_def positional_value_def extant_erase_key_def
  extant_erase_def


section \<open>Driver mutations\<close>

text \<open>
  A hit on the death trait leaves every other \<open>EventRates\<close> object of the store as it was
  and gives the cell a fresh one, in which \<open>death_rate\<close> is multiplied by \<open>s + 1\<close> and
  \<open>death_prob\<close> by \<open>(s + 1) + 1\<close>: the second \<^verbatim>\<open>(s += 1.0)\<close> increments \<open>s\<close> again.
\<close>

lemma mutate_death_hit:
  assumes "mutate_death P (oss, c, st, engine) = (oss', c', st', engine')"
    and "fst (bernoulli (Fin (RATE_DEATH P)) engine)"
    and "normal_distribution (MEAN_DEATH P) (SD_DEATH P)
           (snd (bernoulli (Fin (RATE_DEATH P)) engine)) = (s, engine2)"
  shows "death_rate (obj st' (event_rates (members c'))) =
           dmul (death_rate (obj st (event_rates (members c)))) (dadd s (Fin 1))"
    and "death_prob (obj st' (event_rates (members c'))) =
           dmul (death_prob (obj st (event_rates (members c)))) (dadd (dadd s (Fin 1)) (Fin 1))"
    and "event_rates (members c') = top st"
    and "\<forall>h. h \<noteq> top st \<longrightarrow> obj st' h = obj st h"
  using assms by (auto simp: mutate_death_def store_defs Let_def split: prod.splits)

text \<open>
  C1, at a concrete input. The cell's death probability is \<open>1/4\<close> and the drawn coefficient
  is \<open>s = 0\<close>, so the factor \<open>1 + s\<close> of the claim is 1. \<open>mutate\<close> writes the driver line
  \<open>(1, death, 0)\<close>, gives the cell the fresh rates object at address 1, leaves the shared
  object at address 0 as it was, multiplies \<open>death_rate\<close> by 1 and doubles \<open>death_prob\<close>
  to \<open>1/2\<close>.
\<close>

theorem mutate_death_prob_factor:
  "mutate example_params example_cell example_store example_engine =
     ([(1, ''death'', Fin 0)],
      upd (\<lambda>f. f\<lparr>event_rates := 1\<rparr>) example_cell,
      \<lparr>obj = (\<lambda>h. example_rates)
               (1 := example_rates\<lparr>death_rate := Fin 1, death_prob := Fin (1 / 2)\<rparr>),
       top = 2\<rparr>,
      example_engine\<lparr>pos := 1\<rparr>)"
  by (simp add: mutate_def mutate_birth_def mutate_death_def mutate_migra_def
      example_defs dbl_defs engine_defs store_defs fun_eq_iff)


section \<open>The waiting time to the next event\<close>

text \<open>
  C2 as stated fails where sampled times tie. For the exhausted cell without death and
  migration the three times are all \<open>+\<infinity>\<close>, so the birth time is a minimum of the three, and
  \<open>delta_time\<close> schedules a migration and adds \<open>+\<infinity>\<close> to \<open>elapsed\<close>. With equal finite death
  and migration times (\<open>t_death \<le> t_migra\<close>) it schedules a migration as well, not a death.
\<close>

theorem delta_time_ties_counterexample:
  "sample_times example_params quiescent_rates quiescent_cell (Fin 1) example_engine
     = ((PInf, PInf, PInf), example_engine)
   \<and> dle PInf PInf
   \<and> delta_time example_params quiescent_store quiescent_cell (Fin 1) example_engine
     = (PInf, upd (\<lambda>f. f\<lparr>next_event := migration, elapsed := PInf\<rparr>) quiescent_cell,
        example_engine)
   \<and> sample_times example_params tied_rates quiescent_cell (Fin 1) tied_engine
     = ((PInf, Fin 3, Fin 3), tied_engine\<lparr>pos := 2\<rparr>)
   \<and> dle (Fin 3) (Fin 3)
   \<and> delta_time example_params tied_store quiescent_cell (Fin 1) tied_engine
     = (Fin 3, upd (\<lambda>f. f\<lparr>next_event := migration, elapsed := Fin 3\<rparr>) quiescent_cell,
        tied_engine\<lparr>pos := 2\<rparr>)"
  by (simp add: delta_time_def sample_times_def gamma_scale_def example_defs
      dbl_defs engine_defs store_defs)

text \<open>
  C2, amended: the comparisons are strict. If the birth time is strictly less than both
  other times, the returned time is the birth time, \<open>elapsed\<close> is reset to 0 and the next
  event is death exactly when the Bernoulli trial with the cell's death probability \<open>\<alpha>\<close>
  succeeds (\<open>\<alpha> \<ge> 1\<close>, or \<open>\<alpha> > 0\<close> and the next canonical variate is below \<open>\<alpha>\<close>), birth
  otherwise. Otherwise, if the death time is strictly less than the migration time, the
  next event is death, the death time is returned and \<open>elapsed\<close> is kept. Otherwise (ties
  included) the next event is migration, the migration time is returned and added to
  \<open>elapsed\<close>.
\<close>

theorem delta_time_branches:
  "(case sample_times P (obj st (event_rates (members c))) c pv engine of
      ((t_birth, t_death, t_migra), engine3) \<Rightarrow>
    (case delta_time P st c pv engine of
      (dt, c', engine') \<Rightarrow>
        (if dlt t_birth t_death \<and> dlt t_birth t_migra then
           dt = t_birth \<and> elapsed (members c') = Fin 0
           \<and> next_event (members c') =
               (let alpha = death_prob (obj st (event_rates (members c)))
                in if dle (Fin 1) alpha
                      \<or> (dlt (Fin 0) alpha \<and> dlt (Fin (variates engine3 (pos engine3))) alpha)
                   then death else birth)
         else if dlt t_death t_migra then
           dt = t_death \<and> next_event (members c') = death
           \<and> elapsed (members c') = elapsed (members c)
         else
           dt = t_migra \<and> next_event (members c') = migration
           \<and> elapsed (members c') = dadd (elapsed (members c)) t_migra)))"
  by (auto simp: delta_time_def Let_def upd_def bernoulli_def generate_canonical_def draw_def
      split: prod.splits)



lemma dlt_PInf [simp]: "\<not> dlt PInf x" by (cases x) auto
lemma dlt_NaN [simp]: "\<not> dlt NaN x" by (cases x) auto








section \<open>Lattice geometry\<close>

text \<open>
  C9. The constructors build direction lists of pairwise distinct vectors: 4 and 6 for the
  von Neumann neighbourhood in two and three dimensions, 8 and 26 for the Moore
  neighbourhood, 6 and 12 for the hexagonal one.
\<close>

theorem direction_counts:
  "(\<exists>g. Coord_new Neumann 2 = Some g \<and> length (directions g) = 4 \<and> distinct (directions g))
 \<and> (\<exists>g. Coord_new Neumann 3 = Some g \<and> length (directions g) = 6 \<and> distinct (directions g))
 \<and> (\<exists>g. Coord_new Moore 2 = Some g \<and> length (directions g) = 8 \<and> distinct (directions g))
 \<and> (\<exists>g. Coord_new Moore 3 = Some g \<and> length (directions g) = 26 \<and> distinct (directions g))
 \<and> (\<exists>g. Coord_new Hexagonal 2 = Some g \<and> length (directions g) = 6
        \<and> distinct (directions g))
 \<and> (\<exists>g. Coord_new Hexagonal 3 = Some g \<and> length (directions g) = 12
        \<and> distinct (directions g))"
proof -
  have n2: "Neumann_directions 2 = Some [[0, 1], [1, 0], [-1, 0], [0, -1]]"
    by code_simp
  have n3: "Neumann_directions 3
      = Some [[0, 0, 1], [0, 1, 0], [1, 0, 0], [-1, 0, 0], [0, -1, 0], [0, 0, -1]]"
    by code_simp
  have h2: "Hexagonal_directions 2
      = Some [[-1, 0], [-1, 1], [0, -1], [0, 1], [1, -1], [1, 0]]"
    by code_simp
  have h3: "Hexagonal_directions 3
      = Some [[-1, 0, 0], [-1, 1, 0], [0, -1, 0], [0, 1, 0], [1, -1, 0], [1, 0, 0],
              [0, 0, -1], [1, 0, -1], [1, -1, -1], [0, 0, 1], [-1, 0, 1], [-1, 1, 1]]"
    by code_simp
  have lm2: "length (Moore_directions 2) = 8" "distinct (Moore_directions 2)"
    by (simp_all add: Moore_directions_def)
  have lm3: "length (Moore_directions 3) = 26" "distinct (Moore_directions 3)"
    by (simp_all add: Moore_directions_def)
  show ?thesis
    unfolding Coord_new_def n2 n3 h2 h3 using lm2 lm3 by simp
qed

text \<open>
  C5, at the displacement \<open>(1, 1)\<close> of the two-dimensional hexagonal geometry as its
  constructor builds it. The call
  through the handle runs \<open>Coord::euclidean_distance\<close> and yields \<open>\<surd>2\<close>; the graph distance
  is 2, which is what \<open>Hexagonal::euclidean_distance\<close> would have returned.
\<close>

theorem hexagonal_euclidean_distance_through_handle:
  "Coord_new Hexagonal 2 = Some hexagonal_2d
   \<and> euclidean_distance hexagonal_2d [1, 1] = sqrt 2
   \<and> graph_distance hexagonal_2d [1, 1] = 2
   \<and> Hexagonal_euclidean_distance [1, 1] = 2
   \<and> sqrt 2 \<noteq> (2::real)"
proof -
  have "sqrt 2 \<noteq> (2::real)"
  proof
    assume "sqrt 2 = (2::real)"
    then have "(sqrt 2)\<^sup>2 = (2::real)\<^sup>2" by simp
    then show False by simp
  qed
  moreover have "Hexagonal_directions 2
      = Some [[-1, 0], [-1, 1], [0, -1], [0, 1], [1, -1], [1, 0]]"
    by code_simp
  ultimately show ?thesis
    by (simp add: Coord_new_def hexagonal_2d_def euclidean_distance_def
        Coord_euclidean_distance_def graph_distance_def
        Hexagonal_graph_distance_def Hexagonal_euclidean_distance_def)
qed


section \<open>Segregating sites\<close>

lemma has_mutations_of_flags:
  "has_mutations_of c mutants = map (site_flag mutants c) [0..<length mutants]"
  unfolding has_mutations_of_def Let_def
  by (rule nth_equalityI) (simp_all add: site_flag_def)

lemma transpose_flags:
  assumes "samples \<noteq> []"
  shows "wtl_transpose (map (\<lambda>c. has_mutations_of c mutants) samples)
         = map (\<lambda>j. map (\<lambda>c. site_flag mutants c j) samples) [0..<length mutants]"
proof -
  obtain c0 cs where s: "samples = c0 # cs" using assms by (cases samples) auto
  show ?thesis
    unfolding wtl_transpose_def s
    by (simp add: has_mutations_of_flags)
qed

lemma sum_flags:
  "sum_list (map (\<lambda>c. site_flag mutants c j) samples)
   = derived_allele_frequency samples (mutants ! j)"
  by (induction samples) (auto simp: derived_allele_frequency_def site_flag_def)

lemma transpose_sites:
  assumes "sites \<noteq> []"
  shows "wtl_transpose (map (\<lambda>j. map (\<lambda>c. site_flag mutants c j) samples) sites)
         = map (\<lambda>c. map (site_flag mutants c) sites) samples"
proof -
  obtain j0 js where s: "sites = j0 # js" using assms by (cases sites) auto
  show ?thesis
    unfolding wtl_transpose_def s
    by (rule nth_equalityI) (simp_all add: nth_equalityI)
qed

lemma show_nat_bit: "show_nat (if b then 1 else 0) = (if b then ''1'' else ''0'')"
  by (simp add: digit_def)

lemma wtl_join_empty_sep: "wtl_join xs [] = concat (map show_nat xs)"
  by (induction xs "[] :: string" rule: wtl_join.induct) simp_all

lemma join_flags:
  "wtl_join (map (site_flag mutants c) sites) []
   = concat (map (\<lambda>i. if mutants ! i \<in> traceback c then ''1'' else ''0'') sites)"
  unfolding wtl_join_empty_sep site_flag_def map_map comp_def show_nat_bit ..

lemma write_segsites_segsites_text:
  "write_segsites samples mutants = segsites_text samples mutants"
proof (cases "samples = []")
  case True
  then show ?thesis
    by (simp add: write_segsites_def segsites_text_def segregating_sites_def
        derived_allele_frequency_def wtl_transpose_def)
next
  case False
  let ?T = "map (\<lambda>j. map (\<lambda>c. site_flag mutants c j) samples) [0..<length mutants]"
  let ?sites = "segregating_sites samples mutants"
  have seg: "filter (\<lambda>site. 0 < sum_list site \<and> sum_list site < length samples) ?T
             = map (\<lambda>j. map (\<lambda>c. site_flag mutants c j) samples) ?sites"
    by (simp add: filter_map comp_def sum_flags segregating_sites_def)
  show ?thesis
  proof (cases "?sites = []")
    case True
    then show ?thesis
      unfolding write_segsites_def segsites_text_def Let_def transpose_flags [OF False] seg
      by simp
  next
    case ne: False
    then show ?thesis
      unfolding write_segsites_def segsites_text_def Let_def transpose_flags [OF False] seg
        length_map transpose_sites [OF ne] map_map comp_def join_flags
      by simp
  qed
qed

text \<open>
  C8. The text \<open>write_segsites\<close> appends: the header with the number \<open>s\<close> of kept sites,
  where the kept sites are exactly the positions of the mutant list whose derived-allele
  frequency over the samples is greater than 0 and less than the sample size; then, for
  \<open>s = 0\<close>, one more newline and nothing else; otherwise the positions line with \<open>s\<close>
  zeros and one row per sample with its digits at the kept sites.
\<close>

theorem write_segsites_output:
  "write_segsites samples mutants =
     (let sites = filter (\<lambda>i. 0 < derived_allele_frequency samples (mutants ! i)
                             \<and> derived_allele_frequency samples (mutants ! i) < length samples)
                    [0..<length mutants];
          s = length sites;
          head = [CHR 0x0A] @ ''//'' @ [CHR 0x0A] @ ''segsites: '' @ show_nat s @ [CHR 0x0A]
      in if s = 0 then head @ [CHR 0x0A]
         else head @ ''positions: '' @ wtl_join (replicate s 0) '' '' @ [CHR 0x0A]
              @ concat (map (\<lambda>cell.
                  concat (map (\<lambda>i. if mutants ! i \<in> traceback cell then ''1'' else ''0'') sites)
                  @ [CHR 0x0A]) samples))"
  unfolding write_segsites_segsites_text segsites_text_def segregating_sites_def ..


section \<open>Genealogy\<close>

lemma ancestor_ids_simps [simp]:
  "ancestor_ids (Cell f None) = []"
  "ancestor_ids (Cell f (Some (Cell g a))) = cell_id g # ancestor_ids (Cell g a)"
  by (simp_all add: ancestor_ids_def)

lemma traceback_ids: "traceback c = insert (cell_id (members c)) (set (ancestor_ids c))"
  by (simp add: traceback_def ancestor_ids_def)

lemma find_mrca_sorted:
  assumes "sorted_wrt (>) (ancestor_ids c)"
    and "m \<in> set (ancestor_ids c)" and "m \<in> G"
    and "\<forall>x \<in> set (ancestor_ids c). x \<in> G \<longrightarrow> x \<le> m"
  shows "find_mrca G (ancestor c) len m0
         = (len + length (filter (\<lambda>x. m < x) (ancestor_ids c)), m)"
  using assms
proof (induction c arbitrary: len rule: ancestors.induct)
  case (1 f)
  then show ?case by simp
next
  case (2 f p)
  obtain g a where p: "p = Cell g a" by (cases p)
  let ?x = "cell_id g"
  let ?rest = "ancestor_ids (Cell g a)"
  from 2(2) have sorted: "sorted_wrt (>) ?rest" and above: "\<forall>y \<in> set ?rest. y < ?x"
    by (auto simp: p)
  show ?case
  proof (cases "?x \<in> G")
    case True
    with 2(5) have "?x \<le> m" by (simp add: p)
    moreover from 2(3) above have "m \<le> ?x" by (auto simp: p)
    ultimately have "m = ?x" by simp
    with above have "filter (\<lambda>y. m < y) ?rest = []"
      by (auto simp: filter_empty_conv)
    with True \<open>m = ?x\<close> show ?thesis by (simp add: p)
  next
    case False
    with 2(3,4) have "m \<in> set ?rest" by (auto simp: p)
    with above have "m < ?x" by auto
    moreover have "find_mrca G (ancestor p) (len + 1) m0
        = (len + 1 + length (filter (\<lambda>x. m < x) (ancestor_ids p)), m)"
      using 2(1) [of "len + 1"] sorted \<open>m \<in> set ?rest\<close> 2(4,5) by (simp add: p)
    ultimately show ?thesis using False by (simp add: p)
  qed
qed

lemma count_to_mrca_sorted:
  assumes "sorted_wrt (>) (ancestor_ids c)" and "m \<in> set (ancestor_ids c)"
  shows "count_to_mrca (ancestor c) m len
         = Some (len + length (filter (\<lambda>x. m < x) (ancestor_ids c)))"
  using assms
proof (induction c arbitrary: len rule: ancestors.induct)
  case (1 f)
  then show ?case by simp
next
  case (2 f p)
  obtain g a where p: "p = Cell g a" by (cases p)
  let ?x = "cell_id g"
  let ?rest = "ancestor_ids (Cell g a)"
  from 2(2) have sorted: "sorted_wrt (>) ?rest" and above: "\<forall>y \<in> set ?rest. y < ?x"
    by (auto simp: p)
  show ?case
  proof (cases "m < ?x")
    case True
    with 2(3) have "m \<in> set ?rest" by (auto simp: p)
    then have "count_to_mrca (ancestor p) m (len + 1)
        = Some (len + 1 + length (filter (\<lambda>x. m < x) (ancestor_ids p)))"
      using 2(1) [of "len + 1"] sorted by (simp add: p)
    with True show ?thesis by (simp add: p)
  next
    case False
    with above have "filter (\<lambda>y. m < y) ?rest = []"
      by (auto simp: filter_empty_conv)
    with False show ?thesis by (simp add: p)
  qed
qed

lemma branch_length_value:
  assumes sa: "sorted_wrt (>) (ancestor_ids a)" and sb: "sorted_wrt (>) (ancestor_ids b)"
    and ab: "cell_id (members a) \<notin> set (ancestor_ids b)"
    and ne: "cell_id (members a) \<noteq> cell_id (members b)"
    and common: "set (ancestor_ids a) \<inter> set (ancestor_ids b) \<noteq> {}"
    and m: "m = Max (set (ancestor_ids a) \<inter> set (ancestor_ids b))"
  shows "branch_length a b
         = Some (2 + length (filter (\<lambda>x. m < x) (ancestor_ids b))
                   + length (filter (\<lambda>x. m < x) (ancestor_ids a)))"
proof -
  let ?C = "set (ancestor_ids a) \<inter> set (ancestor_ids b)"
  have fin: "finite ?C" by simp
  have mC: "m \<in> ?C" unfolding m using Max_in [OF fin common] .
  have le: "\<forall>x \<in> set (ancestor_ids b). x \<in> traceback a \<longrightarrow> x \<le> m"
    unfolding m traceback_ids using ab by (auto intro: Max_ge)
  have "find_mrca (traceback a) (ancestor b) 2 1
        = (2 + length (filter (\<lambda>x. m < x) (ancestor_ids b)), m)"
    using find_mrca_sorted [OF sb _ _ le, of 2 1] mC by (simp add: traceback_ids)
  then show ?thesis
    using count_to_mrca_sorted [OF sa, of m] mC ne by (simp add: branch_length_def)
qed

text \<open>
  C6, amended. \<open>branch_length c c\<close> is 0 for every cell. For two cells whose ancestor
  chains carry strictly decreasing ids (every division issues fresh, larger ids) and share
  an ancestor, and neither of which is an ancestor of the other, as it is for two extant
  cells, \<open>branch_length\<close> is symmetric: both calls return 2 plus the numbers of ancestors
  of either cell that are younger than the most recent common ancestor.
\<close>

theorem branch_length_symmetric:
  assumes "sorted_wrt (>) (ancestor_ids a)" and "sorted_wrt (>) (ancestor_ids b)"
    and "cell_id (members a) \<notin> set (ancestor_ids b)"
    and "cell_id (members b) \<notin> set (ancestor_ids a)"
    and "set (ancestor_ids a) \<inter> set (ancestor_ids b) \<noteq> {}"
  shows "branch_length c c = Some 0
    \<and> branch_length a b = branch_length b a
    \<and> (cell_id (members a) \<noteq> cell_id (members b) \<longrightarrow>
        branch_length a b =
          Some (2 + length (filter (\<lambda>x. Max (set (ancestor_ids a) \<inter> set (ancestor_ids b)) < x)
                             (ancestor_ids a))
                  + length (filter (\<lambda>x. Max (set (ancestor_ids a) \<inter> set (ancestor_ids b)) < x)
                             (ancestor_ids b))))"
proof (cases "cell_id (members a) = cell_id (members b)")
  case True
  then show ?thesis by (simp add: branch_length_def)
next
  case False
  have 1: "set (ancestor_ids b) \<inter> set (ancestor_ids a) \<noteq> {}" using assms(5) by auto
  have 2: "Max (set (ancestor_ids b) \<inter> set (ancestor_ids a))
           = Max (set (ancestor_ids a) \<inter> set (ancestor_ids b))"
    by (simp add: Int_commute)
  show ?thesis
    using branch_length_value [OF assms(1,2,3) False assms(5) refl]
      branch_length_value [OF assms(2,1,4) False [symmetric] 1 refl] False
    by (simp add: branch_length_def 2)
qed

theorem branch_length_symmetric_witness:
  "branch_length child_cell cousin_cell = Some 4 \<and> branch_length cousin_cell child_cell = Some 4
   \<and> branch_length root_cell root_cell = Some 0"
  using branch_length_symmetric [of child_cell cousin_cell root_cell]
  by (simp add: branch_length_def traceback_def ancestor_ids_def genealogy_defs)

text \<open>
  C6 as stated fails for a cell and its own ancestor: from the parent (id 2) to its child
  (id 4) the result is 2, from the child to the parent it is 3.
\<close>

theorem branch_length_asymmetric:
  "branch_length parent_cell child_cell = Some 2 \<and> branch_length child_cell parent_cell = Some 3"
  by (simp add: branch_length_def traceback_def genealogy_defs)


section \<open>Displacement terminates\<close>

lemma find_cell_None: "find_cell L v = None \<longleftrightarrow> v \<notin> occupied L"
  by (auto simp: find_cell_def occupied_def find_None_iff)

lemma find_cell_Some:
  "find_cell L v = Some a \<Longrightarrow> a \<in> set (extant_cells L) \<and> coord_of L a = v"
  by (auto simp: find_cell_def find_Some_iff)

lemma finite_occupied: "finite (occupied L)"
  by (simp add: occupied_def)

lemma card_occupied: "card (occupied L) \<le> length (extant_cells L)"
  unfolding occupied_def by (meson card_image_le card_length le_trans List.finite_set)

lemma length_vadd: "length d = length c \<Longrightarrow> length (vadd c d) = length c"
  by (simp add: vadd_def)

lemma length_ray: "length d = length c \<Longrightarrow> length (ray c d j) = length c"
  by (simp add: ray_def)

lemma ray_0: "length d = length c \<Longrightarrow> ray c d 0 = c"
  by (rule nth_equalityI) (simp_all add: ray_def)

lemma ray_1: "length d = length c \<Longrightarrow> ray c d 1 = vadd c d"
  by (rule nth_equalityI) (simp_all add: ray_def vadd_def)

lemma ray_shift: "length d = length c \<Longrightarrow> ray (vadd c d) d j = ray c d (Suc j)"
  by (rule nth_equalityI) (simp_all add: ray_def vadd_def algebra_simps)

lemma ray_nth: "length d = length c \<Longrightarrow> i < length c \<Longrightarrow> ray c d j ! i = c ! i + int j * d ! i"
  by (simp add: ray_def)

lemma ray_inj:
  assumes "length d = length c" "i < length d" "d ! i \<noteq> 0"
  shows "inj (ray c d)"
proof (rule injI)
  fix j k assume "ray c d j = ray c d k"
  then have "ray c d j ! i = ray c d k ! i" by simp
  then have "int j * d ! i = int k * d ! i"
    using assms by (simp add: ray_nth)
  with assms(3) show "j = k" by simp
qed

lemma blocked_exists:
  assumes "length d = length c" "i < length d" "d ! i \<noteq> 0"
  shows "\<exists>k. blocked L c d k"
proof -
  have "inj (\<lambda>j. ray c d (Suc j))"
    using ray_inj [OF assms] by (auto simp: inj_def)
  then have "infinite (range (\<lambda>j. ray c d (Suc j)))"
    using finite_imageD by (metis infinite_UNIV_nat)
  then have "\<not> range (\<lambda>j. ray c d (Suc j)) \<subseteq> occupied L"
    using finite_occupied finite_subset by blast
  then have ex: "\<exists>k. ray c d (Suc k) \<notin> occupied L" by auto
  define k where "k = (LEAST k. ray c d (Suc k) \<notin> occupied L)"
  have "ray c d (Suc k) \<notin> occupied L" unfolding k_def using ex by (rule LeastI_ex)
  moreover have "\<forall>j<k. ray c d (Suc j) \<in> occupied L"
    unfolding k_def using not_less_Least by blast
  ultimately show ?thesis unfolding blocked_def by blast
qed

lemma blocked_unique: "blocked L c d k \<Longrightarrow> blocked L c d k' \<Longrightarrow> k = k'"
  unfolding blocked_def by (meson linorder_neqE_nat)

lemma blocked_bound:
  assumes "length d = length c" "i < length d" "d ! i \<noteq> 0" "blocked L c d k"
  shows "k \<le> card (occupied L)"
proof -
  have inj: "inj_on (\<lambda>j. ray c d (Suc j)) {..<k}"
    using ray_inj [OF assms(1-3)] by (auto simp: inj_on_def inj_def)
  have "(\<lambda>j. ray c d (Suc j)) ` {..<k} \<subseteq> occupied L"
    using assms(4) by (auto simp: blocked_def)
  then have "card ((\<lambda>j. ray c d (Suc j)) ` {..<k}) \<le> card (occupied L)"
    by (rule card_mono [OF finite_occupied])
  then show ?thesis by (simp add: card_image [OF inj])
qed

lemma blocked_step:
  assumes "length d = length c" "blocked L c d (Suc k)" "occupied L' = occupied L"
  shows "blocked L' (vadd c d) d k"
  using assms by (auto simp: blocked_def ray_shift)

lemma blocked_Suc_occupied:
  assumes "length d = length c" "blocked L c d (Suc k)"
  shows "vadd c d \<in> occupied L"
  using assms by (auto simp: blocked_def ray_1 [symmetric])

lemma blocked_0_free:
  assumes "length d = length c" "blocked L c d 0"
  shows "vadd c d \<notin> occupied L"
  using assms by (auto simp: blocked_def ray_1 [symmetric])


lemma coord_of_set_cell_coord:
  "coord_of (set_cell_coord x v L) a = (if a = x then v else coord_of L a)"
  by (simp add: coord_of_def set_cell_coord_def assign_def set_coord_def upd_def)

lemma extant_set_cell_coord [simp]:
  "extant_cells (set_cell_coord x v L) = extant_cells L"
  by (simp add: set_cell_coord_def)

lemma occupied_set_cell_coord:
  "x \<notin> set (extant_cells L) \<Longrightarrow> occupied (set_cell_coord x v L) = occupied L"
  unfolding occupied_def by (auto simp: coord_of_set_cell_coord image_iff)

text \<open>\<open>swap_existing\<close> on a free and on an occupied site, for a moving cell that is not in the set.\<close>

lemma swap_existing_free:
  assumes "coord_of L x \<notin> occupied L"
  shows "swap_existing x L = (False, x, L\<lparr>extant_cells := extant_cells L @ [x]\<rparr>)"
  using assms by (simp add: swap_existing_def find_cell_None [symmetric])

lemma swap_existing_occupied:
  assumes "coord_of L x \<in> occupied L" "x \<notin> set (extant_cells L)"
  obtains existing L' where "swap_existing x L = (True, existing, L')"
    "existing \<in> set (extant_cells L)" "coord_of L existing = coord_of L x"
    "cells L' = cells L" "occupied L' = occupied L" "existing \<notin> set (extant_cells L')"
    "length (extant_cells L') \<le> length (extant_cells L)"
proof -
  from assms(1) obtain existing where f: "find_cell L (coord_of L x) = Some existing"
    using find_cell_None by (cases "find_cell L (coord_of L x)") auto
  note e = find_cell_Some [OF f]
  define E where "E = extant_erase existing L"
  define L' where "L' = snd (extant_insert x E)"
  have sw: "swap_existing x L = (True, existing, L')"
    by (simp add: swap_existing_def f L'_def E_def)
  have cE: "cells E = cells L" and xE: "extant_cells E = removeAll existing (extant_cells L)"
    by (simp_all add: E_def extant_erase_def)
  have coE: "coord_of E = coord_of L"
    by (simp add: fun_eq_iff coord_of_def cE)
  have cells: "cells L' = cells L"
    by (simp add: L'_def extant_insert_def cE split: option.splits)
  have coL': "coord_of L' = coord_of L"
    by (simp add: fun_eq_iff coord_of_def cells)
  have ne: "existing \<noteq> x" using e assms(2) by auto
  have ext: "extant_cells L' = removeAll existing (extant_cells L) @ [x]
             \<or> (extant_cells L' = removeAll existing (extant_cells L)
                \<and> coord_of L x \<in> coord_of L ` set (removeAll existing (extant_cells L)))"
  proof (cases "find_cell E (coord_of E x)")
    case None
    then show ?thesis by (simp add: L'_def extant_insert_def xE)
  next
    case (Some b)
    from find_cell_Some [OF Some] have "b \<in> set (removeAll existing (extant_cells L))"
      "coord_of L b = coord_of L x" by (simp_all add: xE coE)
    then have "coord_of L x \<in> coord_of L ` set (removeAll existing (extant_cells L))"
      by (metis imageI)
    then show ?thesis using Some by (simp add: L'_def extant_insert_def xE)
  qed
  have occ: "occupied L' = occupied L"
  proof -
    have "coord_of L ` set (extant_cells L')
          = insert (coord_of L x) (coord_of L ` set (removeAll existing (extant_cells L)))"
      using ext by auto
    also have "\<dots> = coord_of L ` set (extant_cells L)"
      using e by (auto simp: image_iff) metis
    finally show ?thesis by (simp add: occupied_def coL')
  qed
  have notin: "existing \<notin> set (extant_cells L')" using ext ne by auto
  have "length (removeAll existing (extant_cells L)) < length (extant_cells L)"
    using e by (simp add: length_removeAll_less)
  then have len: "length (extant_cells L') \<le> length (extant_cells L)" using ext by auto
  show ?thesis using that [OF sw _ _ cells occ notin len] e by simp
qed

lemma push_terminates_blocked:
  assumes "length d = length (coord_of L moving)" "moving \<notin> set (extant_cells L)"
    "blocked L (coord_of L moving) d k"
  shows "\<exists>L'. push moving d L = Some L'"
  using assms
proof (induction k arbitrary: moving L)
  case 0
  let ?c = "coord_of L moving"
  let ?L1 = "set_cell_coord moving (vadd ?c d) L"
  have "coord_of ?L1 moving \<notin> occupied ?L1"
    using blocked_0_free [OF 0(1,3)] by (simp add: coord_of_set_cell_coord occupied_set_cell_coord 0(2))
  from swap_existing_free [OF this] show ?case
    by (subst push.simps) (simp add: Let_def)
next
  case (Suc k)
  let ?c = "coord_of L moving"
  let ?L1 = "set_cell_coord moving (vadd ?c d) L"
  have c1: "coord_of ?L1 moving = vadd ?c d" by (simp add: coord_of_set_cell_coord)
  have o1: "occupied ?L1 = occupied L" by (simp add: occupied_set_cell_coord Suc(3))
  have "coord_of ?L1 moving \<in> occupied ?L1"
    using blocked_Suc_occupied [OF Suc(2,4)] by (simp add: c1 o1)
  moreover have "moving \<notin> set (extant_cells ?L1)" using Suc(3) by simp
  ultimately obtain existing L2 where sw: "swap_existing moving ?L1 = (True, existing, L2)"
    and ex: "existing \<in> set (extant_cells ?L1)" "coord_of ?L1 existing = coord_of ?L1 moving"
    and cl: "cells L2 = cells ?L1" and oc: "occupied L2 = occupied ?L1"
    and ni: "existing \<notin> set (extant_cells L2)"
    by (rule swap_existing_occupied)
  have co2: "coord_of L2 existing = vadd ?c d"
    using ex(2) c1 by (simp add: coord_of_def cl)
  have len: "length d = length (coord_of L2 existing)"
    by (simp add: co2 length_vadd Suc(2))
  have bl: "blocked L2 (coord_of L2 existing) d k"
    unfolding co2 by (rule blocked_step [OF Suc(2,4)]) (simp add: oc o1)
  from Suc.IH [OF len ni bl] obtain L' where "push existing d L2 = Some L'" by blast
  then show ?case
    by (subst push.simps) (simp add: Let_def sw)
qed



lemma nsteps_blocked: "blocked L c d k \<Longrightarrow> nsteps L c d = Suc k"
  unfolding nsteps_def blocked_def
  by (metis (mono_tags, lifting) Least_equality not_less_iff_gr_or_eq not_le)

lemma steps_loop_blocked:
  assumes "length d = length c" "blocked L c d k"
  shows "steps_to_empty_loop L c d s = Some (s + Suc k)"
  using assms
proof (induction k arbitrary: c s)
  case 0
  from blocked_0_free [OF 0] show ?case
    by (subst steps_to_empty_loop.simps) (simp add: Let_def find_cell_None)
next
  case (Suc k)
  have occ: "find_cell L (vadd c d) \<noteq> None"
    using blocked_Suc_occupied [OF Suc(2,3)] by (simp add: find_cell_None)
  have "steps_to_empty_loop L (vadd c d) d (s + 1) = Some (s + 1 + Suc k)"
    by (rule Suc.IH) (simp_all add: length_vadd Suc(2) blocked_step [OF Suc(2,3)])
  with occ show ?case
    by (subst steps_to_empty_loop.simps) (simp add: Let_def)
qed

lemma proper_blocked:
  assumes "proper_direction (length c) d"
  shows "blocked L c d (nsteps L c d - 1)" "0 < nsteps L c d"
proof -
  from assms obtain i where "length d = length c" "i < length d" "d ! i \<noteq> 0"
    by (auto simp: proper_direction_def in_set_conv_nth)
  then obtain k where k: "blocked L c d k" using blocked_exists by blast
  from nsteps_blocked [OF k] k show "blocked L c d (nsteps L c d - 1)" "0 < nsteps L c d"
    by simp_all
qed

lemma steps_to_empty_nsteps:
  assumes "proper_direction (length c) d"
  shows "steps_to_empty L c d = Some (nsteps L c d)"
  using steps_loop_blocked [OF _ proper_blocked(1) [OF assms], of L 0] proper_blocked(2) [OF assms, of L] assms
  by (simp add: steps_to_empty_def proper_direction_def)

lemma nsteps_bound:
  assumes "proper_direction (length c) d"
  shows "nsteps L c d \<le> length (extant_cells L) + 1"
proof -
  from assms obtain i where d: "length d = length c" "i < length d" "d ! i \<noteq> 0"
    by (auto simp: proper_direction_def in_set_conv_nth)
  from blocked_bound [OF d proper_blocked(1) [OF assms, of L]] card_occupied [of L]
    proper_blocked(2) [OF assms, of L]
  show ?thesis by simp
qed

lemma nearest_loop_argmin:
  assumes "\<forall>d \<in> set ds. steps_to_empty L c d = Some (f d)"
  shows "\<exists>r. nearest_loop L c ds least best = Some r
           \<and> (if \<forall>d \<in> set ds. least \<le> f d then r = best
               else r \<in> set ds \<and> f r < least \<and> (\<forall>d \<in> set ds. f r \<le> f d))"
  using assms
proof (induction ds arbitrary: least best)
  case Nil
  then show ?case by simp
next
  case (Cons d ds)
  have fd: "steps_to_empty L c d = Some (f d)" using Cons.prems by simp
  have rest: "\<forall>d \<in> set ds. steps_to_empty L c d = Some (f d)" using Cons.prems by simp
  show ?case
  proof (cases "f d < least")
    case True
    from Cons.IH [OF rest, of "f d" d] obtain r where
      r: "nearest_loop L c ds (f d) d = Some r"
      "if \<forall>d' \<in> set ds. f d \<le> f d' then r = d
       else r \<in> set ds \<and> f r < f d \<and> (\<forall>d' \<in> set ds. f r \<le> f d')" by blast
    have "r \<in> set (d # ds) \<and> f r < least \<and> (\<forall>d' \<in> set (d # ds). f r \<le> f d')"
      using r(2) True by (auto split: if_splits)
    moreover have "\<not> (\<forall>d' \<in> set (d # ds). least \<le> f d')" using True by auto
    ultimately show ?thesis using r(1) True fd by simp
  next
    case False
    from Cons.IH [OF rest, of least best] obtain r where
      r: "nearest_loop L c ds least best = Some r"
      "if \<forall>d' \<in> set ds. least \<le> f d' then r = best
       else r \<in> set ds \<and> f r < least \<and> (\<forall>d' \<in> set ds. f r \<le> f d')" by blast
    have "if \<forall>d' \<in> set (d # ds). least \<le> f d' then r = best
          else r \<in> set (d # ds) \<and> f r < least \<and> (\<forall>d' \<in> set (d # ds). f r \<le> f d')"
      using r(2) False by (auto split: if_splits)
    then show ?thesis using r(1) False fd by simp
  qed
qed

lemma set_take_drop: "set (take i ys) \<union> set (drop i ys) = set ys"
  by (metis append_take_drop_id set_append)

lemma shuffle_set: "set (fst (shuffle xs engine)) = set xs"
proof (induction xs arbitrary: engine)
  case Nil
  then show ?case by simp
next
  case (Cons x xs)
  obtain ys e1 where s: "shuffle xs engine = (ys, e1)" by (cases "shuffle xs engine")
  have ys: "set ys = set xs" using Cons.IH [of engine] by (simp add: s)
  show ?case
    using set_take_drop [of _ ys] by (auto simp: s ys [symmetric] split: prod.splits)
qed

lemma shuffle_length: "length (fst (shuffle xs engine)) = length xs"
proof (induction xs arbitrary: engine)
  case Nil
  then show ?case by simp
next
  case (Cons x xs)
  obtain ys e1 where s: "shuffle xs engine = (ys, e1)" by (cases "shuffle xs engine")
  have ys: "length ys = length xs" using Cons.IH [of engine] by (simp add: s)
  show ?case
    by (auto simp: s ys [symmetric] split: prod.splits)
qed

lemma shuffle_variates: "variates (snd (shuffle xs engine)) = variates engine"
proof (induction xs arbitrary: engine)
  case Nil
  then show ?case by simp
next
  case (Cons x xs)
  obtain ys e1 where s: "shuffle xs engine = (ys, e1)" by (cases "shuffle xs engine")
  show ?case using Cons.IH [of engine]
    by (simp add: s uniform_int_distribution_def draw_def split: prod.splits)
qed

lemma to_nearest_empty_argmin:
  assumes g: "proper_geometry g (length c)"
    and size: "length (extant_cells L) + 1 < SIZE_MAX"
  shows "\<exists>r engine'. to_nearest_empty g L c 26 engine = Some (r, engine')
           \<and> r \<in> set (directions g)
           \<and> (\<forall>d \<in> set (directions g). nsteps L c r \<le> nsteps L c d)
           \<and> variates engine' = variates engine"
proof -
  obtain ds e' where sh: "shuffle (directions g) engine = (ds, e')"
    by (cases "shuffle (directions g) engine")
  have set: "set ds = set (directions g)" and len: "length ds = length (directions g)"
    and var: "variates e' = variates engine"
    using shuffle_set [of "directions g" engine] shuffle_length [of "directions g" engine]
      shuffle_variates [of "directions g" engine] by (simp_all add: sh)
  have steps: "\<forall>d \<in> set ds. steps_to_empty L c d = Some (nsteps L c d)"
    using g by (auto simp: set proper_geometry_def steps_to_empty_nsteps)
  from nearest_loop_argmin [OF steps, of SIZE_MAX "[]"] obtain r where
    r: "nearest_loop L c ds SIZE_MAX [] = Some r"
      "if \<forall>d \<in> set ds. SIZE_MAX \<le> nsteps L c d then r = []
       else r \<in> set ds \<and> nsteps L c r < SIZE_MAX \<and> (\<forall>d \<in> set ds. nsteps L c r \<le> nsteps L c d)"
    by blast
  have "ds \<noteq> []" using g len by (auto simp: proper_geometry_def)
  then obtain d0 where d0: "d0 \<in> set ds" by (cases ds) auto
  then have "proper_direction (length c) d0" using g by (simp add: set proper_geometry_def)
  from nsteps_bound [OF this, of L] size have "\<not> SIZE_MAX \<le> nsteps L c d0" by simp
  with d0 have "\<not> (\<forall>d \<in> set ds. SIZE_MAX \<le> nsteps L c d)" by blast
  with r(2) have "r \<in> set ds" "\<forall>d \<in> set ds. nsteps L c r \<le> nsteps L c d" by simp_all
  moreover have "\<not> 26 < length ds" using g by (simp add: len proper_geometry_def)
  ultimately show ?thesis
    by (simp add: to_nearest_empty_def sh r(1) set var)
qed

lemma push_minimum_drag_terminates_bounded:
  assumes "proper_geometry g (length (coord_of L moving))"
    and "moving \<notin> set (extant_cells L)"
    and "length (extant_cells L) + 1 < SIZE_MAX"
    and "\<exists>d \<in> set (directions g). nsteps L (coord_of L moving) d \<le> n"
  shows "\<exists>r. push_minimum_drag g moving L engine = Some r"
  using assms
proof (induction n arbitrary: L moving engine)
  case 0
  then obtain d where "d \<in> set (directions g)" "nsteps L (coord_of L moving) d = 0" by auto
  with proper_blocked(2) [of "coord_of L moving" d L] 0(1) show ?case
    by (auto simp: proper_geometry_def)
next
  case (Suc n)
  let ?c = "coord_of L moving"
  from to_nearest_empty_argmin [OF Suc(2,4), of engine] obtain r e' where
    tn: "to_nearest_empty g L ?c 26 engine = Some (r, e')" and rin: "r \<in> set (directions g)"
    and rmin: "\<forall>d \<in> set (directions g). nsteps L ?c r \<le> nsteps L ?c d" by blast
  have pr: "proper_direction (length ?c) r" using Suc(2) rin by (simp add: proper_geometry_def)
  then have lr: "length r = length ?c" by (simp add: proper_direction_def)
  have le: "nsteps L ?c r \<le> Suc n" using Suc(5) rmin by (meson le_trans)
  let ?L1 = "set_cell_coord moving (vadd ?c r) L"
  have c1: "coord_of ?L1 moving = vadd ?c r" by (simp add: coord_of_set_cell_coord)
  have o1: "occupied ?L1 = occupied L" by (simp add: occupied_set_cell_coord Suc(3))
  note bl = proper_blocked(1) [OF pr, of L]
  show ?case
  proof (cases "nsteps L ?c r - 1")
    case 0
    with bl have "coord_of ?L1 moving \<notin> occupied ?L1"
      using blocked_0_free [OF lr] by (simp add: c1 o1)
    from swap_existing_free [OF this] show ?thesis
      by (subst push_minimum_drag.simps) (simp add: tn Let_def)
  next
    case (Suc k)
    with bl have blk: "blocked L ?c r (Suc k)" by simp
    have "coord_of ?L1 moving \<in> occupied ?L1"
      using blocked_Suc_occupied [OF lr blk] by (simp add: c1 o1)
    moreover have "moving \<notin> set (extant_cells ?L1)" using Suc.prems(2) by simp
    ultimately obtain existing L2 where sw: "swap_existing moving ?L1 = (True, existing, L2)"
      and ex: "existing \<in> set (extant_cells ?L1)" "coord_of ?L1 existing = coord_of ?L1 moving"
      and cl: "cells L2 = cells ?L1" and oc: "occupied L2 = occupied ?L1"
      and ni: "existing \<notin> set (extant_cells L2)"
      and ln: "length (extant_cells L2) \<le> length (extant_cells ?L1)"
      by (rule swap_existing_occupied)
    have co2: "coord_of L2 existing = vadd ?c r"
      using ex(2) c1 by (simp add: coord_of_def cl)
    have len2: "length (coord_of L2 existing) = length ?c"
      by (simp add: co2 length_vadd lr)
    have bl2: "blocked L2 (coord_of L2 existing) r k"
      unfolding co2 by (rule blocked_step [OF lr blk]) (simp add: oc o1)
    have "nsteps L2 (coord_of L2 existing) r \<le> n"
      using nsteps_blocked [OF bl2] nsteps_blocked [OF blk] le by simp
    with rin have ex2: "\<exists>d \<in> set (directions g). nsteps L2 (coord_of L2 existing) d \<le> n" by blast
    have g2: "proper_geometry g (length (coord_of L2 existing))"
      using Suc.prems(1) by (simp add: len2)
    have sz: "length (extant_cells L2) + 1 < SIZE_MAX" using ln Suc.prems(3) by simp
    from Suc.IH [OF g2 ni sz ex2, of e'] obtain res where
      "push_minimum_drag g existing L2 e' = Some res" by blast
    then show ?thesis
      by (subst push_minimum_drag.simps) (simp add: tn Let_def sw)
  qed
qed

lemma push_minimum_drag_terminates:
  assumes "proper_geometry g (length (coord_of L moving))"
    and "moving \<notin> set (extant_cells L)"
    and "length (extant_cells L) + 1 < SIZE_MAX"
  shows "\<exists>r. push_minimum_drag g moving L engine = Some r"
proof -
  from assms(1) obtain d where "d \<in> set (directions g)"
    by (cases "directions g") (auto simp: proper_geometry_def)
  then have "\<exists>d' \<in> set (directions g).
      nsteps L (coord_of L moving) d' \<le> nsteps L (coord_of L moving) d" by blast
  from push_minimum_drag_terminates_bounded [OF assms this] show ?thesis .
qed

lemma push_terminates:
  assumes "proper_direction (length (coord_of L moving)) d" "moving \<notin> set (extant_cells L)"
  shows "\<exists>L'. push moving d L = Some L'"
proof -
  have len: "length d = length (coord_of L moving)"
    using assms(1) by (simp add: proper_direction_def)
  from push_terminates_blocked [OF len assms(2) proper_blocked(1) [OF assms(1)]]
  show ?thesis .
qed


text \<open>
  C10. In a lattice (whose occupancy set is finite, being a set of handles) that does not
  hold the moving cell, \<open>push\<close> along a direction that is not the zero vector returns; the
  step count of \<open>steps_to_empty\<close> is defined for every direction of the geometry; and
  \<open>push_minimum_drag\<close> returns, for a geometry with at most 26 directions, none of them
  zero, and fewer cells than a \<^verbatim>\<open>size_t\<close> counts.
\<close>

theorem push_terminates_on_finite_lattice:
  assumes "moving \<notin> set (extant_cells L)"
    and "proper_direction (length (coord_of L moving)) direction"
    and "proper_geometry coord_func (length (coord_of L moving))"
    and "length (extant_cells L) + 1 < SIZE_MAX"
  shows "(\<exists>L'. push moving direction L = Some L')
    \<and> (\<forall>d \<in> set (directions coord_func).
          \<exists>n. steps_to_empty L (coord_of L moving) d = Some n \<and> 0 < n)
    \<and> (\<exists>L' engine'. push_minimum_drag coord_func moving L engine = Some (L', engine'))"
proof -
  have 1: "\<exists>L'. push moving direction L = Some L'"
    using push_terminates [OF assms(2,1)] .
  have 2: "\<forall>d \<in> set (directions coord_func).
          \<exists>n. steps_to_empty L (coord_of L moving) d = Some n \<and> 0 < n"
    using assms(3) steps_to_empty_nsteps proper_blocked(2)
    by (auto simp: proper_geometry_def)
  have 3: "\<exists>L' engine'. push_minimum_drag coord_func moving L engine = Some (L', engine')"
    using push_minimum_drag_terminates [OF assms(3,1,4), of engine] by auto
  from 1 2 3 show ?thesis by blast
qed

theorem push_terminates_on_finite_lattice_witness:
  "2 \<notin> set (extant_cells pair_lattice)
   \<and> coord_of pair_lattice 2 = [0, 1]
   \<and> proper_direction 2 [0, -1]
   \<and> proper_geometry neumann_2d 2
   \<and> length (extant_cells pair_lattice) + 1 < SIZE_MAX
   \<and> (\<exists>L'. push 2 [0, -1] pair_lattice = Some L')
   \<and> (\<exists>n. steps_to_empty pair_lattice [0, 1] [0, 1] = Some n \<and> 0 < n)
   \<and> (\<exists>n. steps_to_empty pair_lattice [0, 1] [1, 0] = Some n \<and> 0 < n)
   \<and> (\<exists>n. steps_to_empty pair_lattice [0, 1] [-1, 0] = Some n \<and> 0 < n)
   \<and> (\<exists>n. steps_to_empty pair_lattice [0, 1] [0, -1] = Some n \<and> 0 < n)
   \<and> (\<exists>L' engine'.
         push_minimum_drag neumann_2d 2 pair_lattice example_engine = Some (L', engine'))"
  using push_terminates_on_finite_lattice [of 2 pair_lattice "[0, -1]" neumann_2d example_engine]
  by (simp add: pair_defs example_defs coord_of_def set_coord_def upd_def proper_direction_def
      proper_geometry_def SIZE_MAX_def)


section \<open>The event queue\<close>

lemma dle_trans: "dle a b \<Longrightarrow> dle b c \<Longrightarrow> dle a c"
  by (cases a; cases b; cases c) (auto simp: dle_def)

lemma dle_refl_left: "dle a b \<Longrightarrow> dle a a"
  by (cases a; cases b) (auto simp: dle_def)

lemma dle_refl_right: "dle a b \<Longrightarrow> dle b b"
  by (cases a; cases b) (auto simp: dle_def)

lemma not_dlt_dle: "\<not> dlt a b \<Longrightarrow> dle a a \<Longrightarrow> dle b b \<Longrightarrow> dle b a"
  by (cases a; cases b) (auto simp: dle_def)

lemma dlt_dle: "dlt a b \<Longrightarrow> dle a b"
  by (simp add: dle_def)

lemma dadd_nonneg:
  "dle (Fin 0) dt \<Longrightarrow> dle (Fin 0) t \<Longrightarrow> dle t (dadd dt t) \<and> dle (Fin 0) (dadd dt t)"
  by (cases dt; cases t) (auto simp: dle_def)

lemma gamma_draw_nonneg:
  assumes "0 \<le> x" "\<not> dlt theta (Fin 0)"
  shows "dmul (Fin x) theta = NaN \<or> dle (Fin 0) (dmul (Fin x) theta)"
proof (cases theta)
  case (Fin y)
  with assms have "0 \<le> x * y" by simp
  then have "0 < x * y \<or> 0 = x * y" by linarith
  with Fin show ?thesis by (auto simp: dle_def)
qed (use assms in \<open>auto simp: dle_def signed_inf_def\<close>)

lemma exponential_draw_nonneg:
  assumes "0 \<le> x" "dlt (Fin 0) lambda"
  shows "dle (Fin 0) (ddiv (Fin x) lambda)"
proof (cases lambda)
  case (Fin y)
  with assms have "0 \<le> x / y" by simp
  then have "0 < x / y \<or> 0 = x / y" by linarith
  with Fin assms show ?thesis by (auto simp: dle_def)
qed (use assms in \<open>auto simp: dle_def\<close>)

lemma sample_times_nonneg:
  assumes "\<forall>n. 0 \<le> variates engine n"
    and "sample_times P r c pv engine = ((tb, td, tm), e3)"
  shows "(tb = NaN \<or> dle (Fin 0) tb) \<and> dle (Fin 0) td \<and> dle (Fin 0) tm
         \<and> variates e3 = variates engine"
proof -
  have v: "0 \<le> variates engine n" for n using assms(1) by simp
  have g: "\<not> dlt (gamma_scale P r c pv) (Fin 0)"
    unfolding gamma_scale_def Let_def dmax_def by simp
  have inf: "dle (Fin 0) PInf" by (simp add: dle_def)
  show ?thesis
    using assms(2) gamma_draw_nonneg [OF v g] exponential_draw_nonneg [OF v] inf
    by (auto simp: sample_times_def gamma_distribution_def exponential_distribution_def
        draw_def split: if_splits)
qed

lemma bernoulli_variates: "bernoulli p engine = (b, engine') \<Longrightarrow> variates engine' = variates engine"
  by (auto simp: bernoulli_def generate_canonical_def draw_def split: prod.splits if_splits)

lemma delta_time_nonneg:
  assumes "\<forall>n. 0 \<le> variates engine n"
    and "delta_time P st c pv engine = (dt, c', engine')"
  shows "dle (Fin 0) dt \<and> variates engine' = variates engine"
proof -
  obtain tb td tm e3 where
    s: "sample_times P (obj st (event_rates (members c))) c pv engine = ((tb, td, tm), e3)"
    by (metis prod_cases3 surj_pair)
  note n = sample_times_nonneg [OF assms(1) s]
  have nan: "\<not> dlt NaN x" for x by (cases x) auto
  show ?thesis
    using assms(2) n nan
    by (auto simp: delta_time_def Let_def s split: prod.splits if_splits
        dest: bernoulli_variates)
qed

lemma set_queue_emplace: "set (queue_emplace k x q) = insert (k, x) (set q)"
  by (induction q) (auto split: if_splits)

lemma sorted_queue_emplace:
  assumes "sorted_wrt (\<lambda>a b. dle (fst a) (fst b)) q" "dle k k" "\<forall>e \<in> set q. dle (fst e) (fst e)"
  shows "sorted_wrt (\<lambda>a b. dle (fst a) (fst b)) (queue_emplace k x q)"
  using assms
proof (induction q)
  case Nil
  then show ?case by simp
next
  case (Cons e q)
  obtain k' x' where e: "e = (k', x')" by (cases e)
  show ?case
  proof (cases "dlt k k'")
    case True
    then have "\<forall>b \<in> set q. dle k (fst b)"
      using Cons.prems(1) by (auto simp: e intro: dle_trans dlt_dle)
    with True Cons.prems show ?thesis by (auto simp: e dlt_dle)
  next
    case False
    then have "dle k' k" using Cons.prems(2,3) by (auto simp: e intro: not_dlt_dle)
    with False Cons show ?thesis by (auto simp: e set_queue_emplace)
  qed
qed

lemma queue_push_inv:
  assumes "queue_inv T" "\<forall>n. 0 \<le> variates engine n"
    and "queue_push P x (T, engine) = (T', engine')"
  shows "queue_inv T' \<and> time T' = time T \<and> variates engine' = variates engine"
proof -
  obtain dt c e1 where d: "delta_time P (rates T) (obj (cells (lattice T)) x)
      (positional_value (coord_of (lattice T) x)) engine = (dt, c, e1)"
    by (metis prod_cases3)
  from delta_time_nonneg [OF assms(2) d] have dt: "dle (Fin 0) dt" and v: "variates e1 = variates engine"
    by simp_all
  have T': "queue T' = queue_emplace (dadd dt (time T)) x (queue T)" "time T' = time T" "engine' = e1"
    using assms(3) by (auto simp: queue_push_def d)
  from assms(1) have t0: "dle (Fin 0) (time T)" and so: "sorted_wrt (\<lambda>a b. dle (fst a) (fst b)) (queue T)"
    and ge: "\<forall>e \<in> set (queue T). dle (time T) (fst e)" by (simp_all add: queue_inv_def)
  note k = dadd_nonneg [OF dt t0]
  have "sorted_wrt (\<lambda>a b. dle (fst a) (fst b)) (queue T')"
    unfolding T' using so k ge by (intro sorted_queue_emplace) (auto intro: dle_refl_right)
  moreover have "\<forall>e \<in> set (queue T'). dle (time T') (fst e)"
    unfolding T' using k ge by (auto simp: set_queue_emplace)
  ultimately show ?thesis using t0 v by (simp add: queue_inv_def T')
qed


lemma draw_variates: "draw engine = (x, engine') \<Longrightarrow> variates engine' = variates engine"
  by (auto simp: draw_def)

lemma uniform_int_variates:
  "uniform_int_distribution n engine = (i, engine') \<Longrightarrow> variates engine' = variates engine"
  by (auto simp: uniform_int_distribution_def draw_def)

lemma normal_variates:
  "normal_distribution m sd engine = (s, engine') \<Longrightarrow> variates engine' = variates engine"
  by (auto simp: normal_distribution_def draw_def)

lemma Cell_copy_variates:
  "Cell_copy P c engine = (c', engine') \<Longrightarrow> variates engine' = variates engine"
  by (auto simp: Cell_copy_def Let_def split: prod.splits if_splits dest: bernoulli_variates)

lemma differentiate_variates:
  "differentiate P c engine = (c', engine') \<Longrightarrow> variates engine' = variates engine"
  by (auto simp: differentiate_def split: prod.splits if_splits dest: bernoulli_variates)

lemma mutate_birth_variates:
  "mutate_birth P (oss, c, st, engine) = (oss', c', st', engine') \<Longrightarrow>
   variates engine' = variates engine"
  by (auto simp: mutate_birth_def Let_def split: prod.splits if_splits
      dest!: bernoulli_variates normal_variates)

lemma mutate_death_variates:
  "mutate_death P (oss, c, st, engine) = (oss', c', st', engine') \<Longrightarrow>
   variates engine' = variates engine"
  by (auto simp: mutate_death_def Let_def split: prod.splits if_splits
      dest!: bernoulli_variates normal_variates)

lemma mutate_migra_variates:
  "mutate_migra P (oss, c, st, engine) = (oss', c', st', engine') \<Longrightarrow>
   variates engine' = variates engine"
  by (auto simp: mutate_migra_def Let_def split: prod.splits if_splits
      dest!: bernoulli_variates normal_variates)

lemma mutate_variates:
  assumes "mutate P c st engine = (oss', c', st', engine')"
  shows "variates engine' = variates engine"
proof -
  obtain o1 c1 s1 e1 where 1: "mutate_birth P ([], c, st, engine) = (o1, c1, s1, e1)"
    by (metis prod_cases4)
  obtain o2 c2 s2 e2 where 2: "mutate_death P (o1, c1, s1, e1) = (o2, c2, s2, e2)"
    by (metis prod_cases4)
  have 3: "mutate_migra P (o2, c2, s2, e2) = (oss', c', st', engine')"
    using assms by (simp add: mutate_def 1 2)
  show ?thesis
    using mutate_birth_variates [OF 1] mutate_death_variates [OF 2] mutate_migra_variates [OF 3]
    by simp
qed

lemma force_mutate_variates:
  "force_mutate P c st engine = (oss', c', st', engine') \<Longrightarrow>
   variates engine' = variates engine"
  by (auto simp: force_mutate_def Let_def normal_distribution_def draw_def split: prod.splits)

lemma random_direction_variates:
  "random_direction g engine = (d, engine') \<Longrightarrow> variates engine' = variates engine"
  by (auto simp: random_direction_def split: prod.splits dest: uniform_int_variates)

lemma random_neighbor_variates:
  "random_neighbor g v engine = (w, engine') \<Longrightarrow> variates engine' = variates engine"
  by (auto simp: random_neighbor_def split: prod.splits dest: random_direction_variates)

lemma shuffle_variates':
  "shuffle xs engine = (ys, engine') \<Longrightarrow> variates engine' = variates engine"
  using shuffle_variates [of xs engine] by simp

lemma insert_adjacent_variates:
  "insert_adjacent g moving L engine = (r, engine') \<Longrightarrow> variates engine' = variates engine"
  by (auto simp: insert_adjacent_def Let_def split: prod.splits if_splits
      dest: shuffle_variates')

lemma to_nearest_empty_variates:
  "to_nearest_empty g L c m engine = Some (d, engine') \<Longrightarrow> variates engine' = variates engine"
  by (auto simp: to_nearest_empty_def Let_def split: prod.splits dest: shuffle_variates')

lemma roulette_direction_variates:
  "roulette_direction g L c engine = Some (d, engine') \<Longrightarrow> variates engine' = variates engine"
  by (auto simp: roulette_direction_def roulette_select_def generate_canonical_def draw_def
      split: prod.splits option.splits sum.splits dest: shuffle_variates')

lemma migrate_variates:
  "migrate g moving L engine = (L', engine') \<Longrightarrow> variates engine' = variates engine"
  by (auto simp: migrate_def Let_def split: prod.splits option.splits
      dest: random_neighbor_variates)

lemma push_minimum_drag_variates:
  "push_minimum_drag g moving L engine = Some r \<Longrightarrow> variates (snd r) = variates engine"
proof (induction rule: push_minimum_drag.raw_induct [rotated, consumes 1])
  case (1 pmd g moving L engine r)
  then show ?case
    by (auto simp: Let_def split: option.splits prod.splits if_splits
        dest!: to_nearest_empty_variates)
qed

lemma stroll_variates:
  "stroll g moving d L engine = Some r \<Longrightarrow> variates (snd r) = variates engine"
proof (induction rule: stroll.raw_induct [rotated, consumes 1])
  case (1 str g moving d L engine r)
  then show ?case
    by (auto simp: Let_def split: prod.splits if_splits dest!: insert_adjacent_variates)
qed

lemma insert_daughter_variates:
  "insert_daughter f g daughter L engine = Some ((inserted, L'), engine') \<Longrightarrow>
   variates engine' = variates engine"
  by (cases f)
     (auto simp: insert_daughter_def Let_def generate_canonical_def
        split: prod.splits option.splits if_splits
        dest!: push_minimum_drag_variates stroll_variates to_nearest_empty_variates
          roulette_direction_variates random_direction_variates draw_variates
          random_neighbor_variates insert_adjacent_variates)

lemma queue_inv_cong: "queue T' = queue T \<Longrightarrow> time T' = time T \<Longrightarrow> queue_inv T' = queue_inv T"
  by (simp add: queue_inv_def)

lemma queue_push_twice_inv:
  assumes "queue_inv T" "\<forall>n. 0 \<le> variates engine n"
    and "queue_push P y (queue_push P x (T, engine)) = (T', engine')"
  shows "queue_inv T' \<and> time T' = time T \<and> variates engine' = variates engine"
proof -
  obtain T1 e1 where 1: "queue_push P x (T, engine) = (T1, e1)" by (metis surj_pair)
  from queue_push_inv [OF assms(1,2) 1]
  have i1: "queue_inv T1" "time T1 = time T" "variates e1 = variates engine" by simp_all
  have 2: "queue_push P y (T1, e1) = (T', engine')" using assms(3) by (simp add: 1)
  from queue_push_inv [OF i1(1) _ 2] assms(2) i1 show ?thesis by simp
qed

lemma Cell_copy_variates_snd: "variates (snd (Cell_copy P c engine)) = variates engine"
  using Cell_copy_variates [of P c engine] by (metis prod.collapse)

lemma differentiate_variates_snd: "variates (snd (differentiate P c engine)) = variates engine"
  using differentiate_variates [of P c engine] by (metis prod.collapse)

lemma mutate_variates_snd:
  "variates (snd (snd (snd (mutate P c st engine)))) = variates engine"
  using mutate_variates [of P c st engine] by (metis prod.collapse)

lemma force_mutate_variates_snd:
  "variates (snd (snd (snd (force_mutate P c st engine)))) = variates engine"
  using force_mutate_variates [of P c st engine] by (metis prod.collapse)

lemma divide_cells_frame:
  assumes "divide_cells P mother daughter (T, F, engine) = (T', F', engine')"
  shows "queue T' = queue T \<and> time T' = time T \<and> variates engine' = variates engine"
proof (cases "mutation_timing F < length (extant_cells (lattice T))")
  case True
  with assms show ?thesis
    by (auto simp: divide_cells_def split_beta Let_def Cell_copy_variates_snd
        differentiate_variates_snd mutate_variates_snd force_mutate_variates_snd)
next
  case False
  with assms show ?thesis
    by (auto simp: divide_cells_def split_beta Let_def Cell_copy_variates_snd
        differentiate_variates_snd mutate_variates_snd force_mutate_variates_snd)
qed

lemma divide_shape:
  assumes "divide P mother daughter (T, F, engine) = (T', F', engine')"
  shows "\<exists>T5 e6. queue_push P daughter (queue_push P mother (T5, e6)) = (T', engine')
           \<and> queue T5 = queue T \<and> time T5 = time T \<and> variates e6 = variates engine"
proof -
  obtain T5 F5 e6 where d: "divide_cells P mother daughter (T, F, engine) = (T5, F5, e6)"
    by (metis prod_cases3)
  obtain T6 e7 where q: "queue_push P daughter (queue_push P mother (T5, e6)) = (T6, e7)"
    by (metis surj_pair)
  have "T' = T6" "engine' = e7" using assms by (simp_all add: divide_def d q)
  with divide_cells_frame [OF d] q show ?thesis by blast
qed

lemma divide_inv:
  assumes "queue_inv T" "\<forall>n. 0 \<le> variates engine n"
    and "divide P mother daughter (T, F, engine) = (T', F', engine')"
  shows "queue_inv T' \<and> time T' = time T \<and> variates engine' = variates engine"
proof -
  from divide_shape [OF assms(3)] obtain T5 e6 where
    q: "queue_push P daughter (queue_push P mother (T5, e6)) = (T', engine')"
    and f: "queue T5 = queue T" "time T5 = time T" "variates e6 = variates engine" by blast
  have "queue_inv T5" using assms(1) queue_inv_cong [OF f(1,2)] by simp
  from queue_push_twice_inv [OF this _ q] assms(2) f show ?thesis by simp
qed

lemma write_early_growth_frame:
  "write_early_growth (T, F, engine) = (T', F', engine') \<Longrightarrow>
   queue T' = queue T \<and> time T' = time T \<and> engine' = engine"
  by (auto simp: write_early_growth_def snapshots_append_def split: if_splits)

lemma periodic_snapshot_frame:
  "periodic_snapshot (T, F) = (T', F') \<Longrightarrow> queue T' = queue T \<and> time T' = time T
     \<and> lattice T' = lattice T"
  by (auto simp: periodic_snapshot_def snapshots_append_def Let_def split: if_splits)

lemma death_event_inv:
  assumes "queue_inv T"
    and "loop_state (death_event mother (T, F, engine)) = (T', F', engine')"
  shows "queue_inv T' \<and> time T' = time T \<and> engine' = engine"
proof -
  define m where "m = set_time_of_death (time T) (obj (cells (lattice T)) mother)"
  define T1 where "T1 = T\<lparr>history := history T @ [m], lattice := extant_erase_key mother
    ((lattice T)\<lparr>cells := assign mother m (cells (lattice T))\<rparr>)\<rparr>"
  have f1: "queue T1 = queue T" "time T1 = time T" by (simp_all add: T1_def)
  have i1: "queue_inv T1" using assms(1) queue_inv_cong [OF f1] by simp
  have d: "death_event mother (T, F, engine) =
      (if extant_cells (lattice T1) = [] then Break (T1, F, engine)
       else Continue (write_early_growth (T1, F, engine)))"
    by (simp add: death_event_def Let_def T1_def m_def)
  show ?thesis
  proof (cases "extant_cells (lattice T1) = []")
    case True
    with d assms(2) have "(T1, F, engine) = (T', F', engine')" by simp
    with i1 f1 show ?thesis by auto
  next
    case False
    with d assms(2) have "write_early_growth (T1, F, engine) = (T', F', engine')" by simp
    from write_early_growth_frame [OF this] have "queue T' = queue T1" "time T' = time T1"
      "engine' = engine" by simp_all
    with i1 f1 queue_inv_cong [of T' T1] show ?thesis by simp
  qed
qed

lemma migration_event_inv:
  assumes "queue_inv T" "\<forall>n. 0 \<le> variates engine n"
    and "loop_state (migration_event P g mother (T, F, engine)) = (T', F', engine')"
  shows "queue_inv T' \<and> time T' = time T \<and> variates engine' = variates engine"
proof -
  obtain L e1 where m: "migrate g mother (lattice T) engine = (L, e1)" by (metis surj_pair)
  obtain T1 e2 where q: "queue_push P mother (T\<lparr>lattice := L\<rparr>, e1) = (T1, e2)"
    by (metis surj_pair)
  have v1: "variates e1 = variates engine" using migrate_variates [OF m] .
  have inv: "queue_inv (T\<lparr>lattice := L\<rparr>)" using assms(1) by (simp add: queue_inv_def)
  from queue_push_inv [OF inv _ q] assms(2) v1
  have q1: "queue_inv T1" "time T1 = time T" "variates e2 = variates engine" by simp_all
  have "write_early_growth (T1, F, e2) = (T', F', engine')"
    using assms(3) by (simp add: migration_event_def m q)
  from write_early_growth_frame [OF this] have "queue T' = queue T1" "time T' = time T1"
    "engine' = e2" by simp_all
  with q1 queue_inv_cong [of T' T1] show ?thesis by simp
qed

lemma queue_inv_pop:
  assumes "queue_inv T" "queue T = (key, mother) # rest"
  shows "queue_inv (T\<lparr>time := key\<rparr>)" "queue_inv (T\<lparr>time := key, queue := rest\<rparr>)"
    "dle (time T) key"
proof -
  from assms have t0: "dle (Fin 0) (time T)" and k: "dle (time T) key"
    and r: "\<forall>e \<in> set rest. dle key (fst e)"
    and s: "sorted_wrt (\<lambda>a b. dle (fst a) (fst b)) rest"
    by (auto simp: queue_inv_def)
  have kk: "dle key key" using k by (rule dle_refl_right)
  have 0: "dle (Fin 0) key" using t0 k by (rule dle_trans)
  show "queue_inv (T\<lparr>time := key\<rparr>)" using assms 0 kk r by (auto simp: queue_inv_def)
  show "queue_inv (T\<lparr>time := key, queue := rest\<rparr>)" using 0 r s by (simp add: queue_inv_def)
  show "dle (time T) key" by (rule k)
qed

lemma birth_event_inv:
  assumes "queue_inv T" "\<forall>n. 0 \<le> variates engine n"
    and "birth_event P g f mother (T, F, engine) = Some r"
    and "loop_state r = (T', F', engine')"
  shows "queue_inv T' \<and> time T' = time T \<and> variates engine' = variates engine"
proof -
  obtain copy e1 where c: "Cell_copy P (obj (cells (lattice T)) mother) engine = (copy, e1)"
    by (metis surj_pair)
  obtain daughter cells1 where m: "make_shared copy (cells (lattice T)) = (daughter, cells1)"
    by (metis surj_pair)
  from assms(3) obtain inserted L e2 where
    i: "insert_daughter f g daughter ((lattice T)\<lparr>cells := cells1\<rparr>) e1 = Some ((inserted, L), e2)"
    by (auto simp: birth_event_def c m split: option.splits)
  have v2: "variates e2 = variates engine"
    using insert_daughter_variates [OF i] Cell_copy_variates [OF c] by simp
  then have nn: "\<forall>n. 0 \<le> variates e2 n" using assms(2) by simp
  have inv: "queue_inv (T\<lparr>lattice := L\<rparr>)" using assms(1) by (simp add: queue_inv_def)
  show ?thesis
  proof (cases inserted)
    case True
    obtain T1 F1 e3 where d: "divide P mother daughter (T\<lparr>lattice := L\<rparr>, F, e2) = (T1, F1, e3)"
      by (metis prod_cases3)
    from divide_inv [OF inv nn d] have d1: "queue_inv T1" "time T1 = time T" "variates e3 = variates e2"
      by simp_all
    have "write_early_growth (T1, F1, e3) = (T', F', engine')"
      using assms(3,4) True by (auto simp: birth_event_def c m i d)
    from write_early_growth_frame [OF this] have "queue T' = queue T1" "time T' = time T1"
      "engine' = e3" by simp_all
    with d1 v2 queue_inv_cong [of T' T1] show ?thesis by simp
  next
    case False
    obtain T1 e3 where q: "queue_push P mother (T\<lparr>lattice := L\<rparr>, e2) = (T1, e3)"
      by (metis surj_pair)
    have "(T', F', engine') = (T1, F, e3)"
      using assms(3,4) False by (auto simp: birth_event_def c m i q)
    with queue_push_inv [OF inv nn q] v2 show ?thesis by simp
  qed
qed


lemma grow_step_inv:
  assumes "queue_inv T" "\<forall>n. 0 \<le> variates engine n"
    and "grow_step P g f (T, F, engine) = Some r"
    and "loop_state r = (T', F', engine')"
  shows "queue_inv T' \<and> dle (time T) (time T') \<and> variates engine' = variates engine"
proof -
  from assms(3) obtain key mother rest where q: "queue T = (key, mother) # rest"
    by (auto simp: grow_step_def split: list.splits)
  note pop = queue_inv_pop [OF assms(1) q]
  show ?thesis
  proof (cases "dlt (max_time F) key \<or> max_size F \<le> length (extant_cells (lattice T))")
    case True
    then have "r = Break (T\<lparr>time := key\<rparr>, F\<lparr>success := True\<rparr>, engine)"
      using assms(3) by (auto simp: grow_step_def q Let_def)
    with assms(4) pop show ?thesis by auto
  next
    case False
    obtain T2 F1 where p: "periodic_snapshot (T\<lparr>time := key\<rparr>, F) = (T2, F1)"
      by (metis surj_pair)
    note pf = periodic_snapshot_frame [OF p]
    let ?T3 = "T2\<lparr>queue := rest\<rparr>"
    have inv3: "queue_inv ?T3" and t3: "time ?T3 = key"
      using pop(2) pf by (simp_all add: queue_inv_def)
    let ?event = "next_event (members (obj (cells (lattice ?T3)) mother))"
    have step: "r = (if ?event = birth then the (birth_event P g f mother (?T3, F1, engine))
                     else if ?event = death then death_event mother (?T3, F1, engine)
                     else migration_event P g mother (?T3, F1, engine))"
      "?event = birth \<longrightarrow> birth_event P g f mother (?T3, F1, engine) = Some r"
      using assms(3) False by (auto simp: grow_step_def q Let_def p)
    have "queue_inv T' \<and> time T' = key \<and> variates engine' = variates engine"
    proof (cases "?event = birth")
      case True
      with step(2) have "birth_event P g f mother (?T3, F1, engine) = Some r" by simp
      from birth_event_inv [OF inv3 assms(2) this assms(4)] t3 show ?thesis by simp
    next
      case nb: False
      show ?thesis
      proof (cases "?event = death")
        case True
        with nb step(1) assms(4)
        have "loop_state (death_event mother (?T3, F1, engine)) = (T', F', engine')" by simp
        from death_event_inv [OF inv3 this] t3 show ?thesis by simp
      next
        case False
        with nb step(1) assms(4)
        have "loop_state (migration_event P g mother (?T3, F1, engine)) = (T', F', engine')"
          by simp
        from migration_event_inv [OF inv3 assms(2) this] t3 show ?thesis by simp
      qed
    qed
    with pop(3) show ?thesis by simp
  qed
qed

lemma grow_steps_inv:
  assumes "queue_inv T" "\<forall>n. 0 \<le> variates engine n"
    and "grow_steps P g f n (T, F, engine) = Some r"
    and "loop_state r = (T', F', engine')"
  shows "queue_inv T' \<and> dle (time T) (time T') \<and> variates engine' = variates engine"
  using assms
proof (induction n arbitrary: T F engine)
  case 0
  then have "dle (time T) (time T)"
    using dle_refl_right [of "Fin 0" "time T"] by (simp add: queue_inv_def)
  with 0 show ?case by auto
next
  case (Suc n)
  from Suc.prems(3) obtain r1 where g: "grow_step P g f (T, F, engine) = Some r1"
    by (auto split: option.splits)
  obtain T1 F1 e1 where l: "loop_state r1 = (T1, F1, e1)" by (metis prod_cases3)
  note s = grow_step_inv [OF Suc.prems(1,2) g l]
  show ?case
  proof (cases r1)
    case (Break s')
    with g Suc.prems(3) have "r = r1" by simp
    with s l Suc.prems(4) show ?thesis by simp
  next
    case (Continue s')
    with l have s': "s' = (T1, F1, e1)" by simp
    with g Continue Suc.prems(3) have "grow_steps P g f n (T1, F1, e1) = Some r" by simp
    from Suc.IH [OF _ _ this Suc.prems(4)] s Suc.prems(2)
    have "queue_inv T' \<and> dle (time T1) (time T') \<and> variates engine' = variates e1" by simp
    with s show ?thesis using dle_trans by metis
  qed
qed

text \<open>
  C4. From a tissue whose queue is in key order with no key before the simulation time,
  and with an engine whose gamma, exponential and uniform variates are not negative: after
  any number of iterations of the loop of \<open>grow\<close>, and after one more, no key of the queue
  is less than the simulation time; the same holds right after the assignment
  \<^verbatim>\<open>time_ = it->first\<close>, before the entry is erased; and the simulation time has not
  decreased, neither since the start nor over the one iteration.
\<close>

theorem queue_keys_not_before_time:
  assumes "queue_inv T" and "\<forall>n. 0 \<le> variates engine n"
    and "grow_steps P g f n (T, F, engine) = Some (Continue (T1, F1, e1))"
    and "grow_step P g f (T1, F1, e1) = Some r"
    and "loop_state r = (T2, F2, e2)"
  shows "(\<forall>entry \<in> set (queue T1). dle (time T1) (fst entry))
    \<and> (\<forall>entry \<in> set (queue T1). dle (fst (hd (queue T1))) (fst entry))
    \<and> (\<forall>entry \<in> set (queue T2). dle (time T2) (fst entry))
    \<and> dle (time T) (time T1) \<and> dle (time T1) (time T2)"
proof -
  have 1: "queue_inv T1 \<and> dle (time T) (time T1) \<and> variates e1 = variates engine"
    using grow_steps_inv [OF assms(1,2,3)] by simp
  then have nn: "\<forall>n. 0 \<le> variates e1 n" using assms(2) by simp
  from 1 have inv1: "queue_inv T1" by simp
  have 2: "queue_inv T2 \<and> dle (time T1) (time T2) \<and> variates e2 = variates e1"
    using grow_step_inv [OF inv1 nn assms(4,5)] .
  from assms(4) obtain key mother rest where q: "queue T1 = (key, mother) # rest"
    by (auto simp: grow_step_def split: list.splits)
  from queue_inv_pop(1) [OF inv1 q]
  have 3: "\<forall>entry \<in> set (queue T1). dle (fst (hd (queue T1))) (fst entry)"
    by (simp add: queue_inv_def q)
  from 1 2 3 show ?thesis by (simp add: queue_inv_def)
qed

theorem queue_keys_not_before_time_witness:
  "queue_inv pair_tissue \<and> (\<forall>n. 0 \<le> variates late_engine n)
   \<and> grow_steps example_params neumann_2d linear_random 1 (pair_tissue, pair_frame, late_engine)
     = Some (Continue (loop_state (the (grow_steps example_params neumann_2d linear_random 1
        (pair_tissue, pair_frame, late_engine)))))
   \<and> grow_step example_params neumann_2d linear_random
        (loop_state (the (grow_steps example_params neumann_2d linear_random 1
        (pair_tissue, pair_frame, late_engine)))) \<noteq> None
   \<and> time (fst (loop_state (the (grow_steps example_params neumann_2d linear_random 1
        (pair_tissue, pair_frame, late_engine))))) = Fin 2
   \<and> queue (fst (loop_state (the (grow_steps example_params neumann_2d linear_random 1
        (pair_tissue, pair_frame, late_engine))))) = [(Fin (29 / 10), 0), (Fin 3, 1)]
   \<and> time (fst (loop_state (the (grow_step example_params neumann_2d linear_random
        (loop_state (the (grow_steps example_params neumann_2d linear_random 1
        (pair_tissue, pair_frame, late_engine)))))))) = Fin (29 / 10)
   \<and> queue (fst (loop_state (the (grow_step example_params neumann_2d linear_random
        (loop_state (the (grow_steps example_params neumann_2d linear_random 1
        (pair_tissue, pair_frame, late_engine)))))))) = [(Fin 3, 1)]
   \<and> dle (Fin 1) (Fin 2) \<and> dle (Fin 2) (Fin (29 / 10)) \<and> dle (Fin (29 / 10)) (Fin 3)"
  using queue_keys_not_before_time [of pair_tissue late_engine example_params neumann_2d
      linear_random 1 pair_frame
      "fst (loop_state (the (grow_steps example_params neumann_2d linear_random 1
        (pair_tissue, pair_frame, late_engine))))"
      "fst (snd (loop_state (the (grow_steps example_params neumann_2d linear_random 1
        (pair_tissue, pair_frame, late_engine)))))"
      "snd (snd (loop_state (the (grow_steps example_params neumann_2d linear_random 1
        (pair_tissue, pair_frame, late_engine)))))"
      "the (grow_step example_params neumann_2d linear_random
        (loop_state (the (grow_steps example_params neumann_2d linear_random 1
        (pair_tissue, pair_frame, late_engine)))))"
      "fst (loop_state (the (grow_step example_params neumann_2d linear_random
        (loop_state (the (grow_steps example_params neumann_2d linear_random 1
        (pair_tissue, pair_frame, late_engine)))))))"
      "fst (snd (loop_state (the (grow_step example_params neumann_2d linear_random
        (loop_state (the (grow_steps example_params neumann_2d linear_random 1
        (pair_tissue, pair_frame, late_engine))))))))"
      "snd (snd (loop_state (the (grow_step example_params neumann_2d linear_random
        (loop_state (the (grow_steps example_params neumann_2d linear_random 1
        (pair_tissue, pair_frame, late_engine))))))))"]
  by (simp add: queue_inv_def grow_defs pair_defs example_defs engine_defs store_defs dbl_defs
      Let_def)


section \<open>A refused insertion\<close>

lemma set_cell_coord_frame:
  "extant_cells (set_cell_coord x v L) = extant_cells L"
  "h \<noteq> x \<Longrightarrow> obj (cells (set_cell_coord x v L)) h = obj (cells L) h"
  by (simp_all add: set_cell_coord_def assign_def)

lemma extant_insert_fail:
  "extant_insert x L = (False, L') \<Longrightarrow> L' = L"
  by (auto simp: extant_insert_def split: option.splits)

lemma try_neighbors_fail:
  "try_neighbors moving xs L = (False, L') \<Longrightarrow>
   extant_cells L' = extant_cells L \<and> (\<forall>h. h \<noteq> moving \<longrightarrow> obj (cells L') h = obj (cells L) h)"
proof (induction xs arbitrary: L)
  case Nil
  then show ?case by simp
next
  case (Cons x xs)
  obtain inserted L1 where e: "extant_insert moving (set_cell_coord moving x L) = (inserted, L1)"
    by (metis surj_pair)
  with Cons.prems have ni: "\<not> inserted" and t: "try_neighbors moving xs L1 = (False, L')"
    by (auto split: if_splits)
  from e ni have "L1 = set_cell_coord moving x L" using extant_insert_fail by simp
  with Cons.IH [OF t] show ?case by (simp add: set_cell_coord_frame)
qed

lemma insert_adjacent_fail:
  assumes "insert_adjacent g moving L engine = ((False, L'), engine')"
  shows "extant_cells L' = extant_cells L
    \<and> (\<forall>h. h \<noteq> moving \<longrightarrow> obj (cells L') h = obj (cells L) h)"
proof -
  obtain nbrs e1 where s: "shuffle (neighbors g (coord_of L moving)) engine = (nbrs, e1)"
    by (metis surj_pair)
  obtain inserted L1 where t: "try_neighbors moving nbrs L = (inserted, L1)"
    by (metis surj_pair)
  from assms have ni: "\<not> inserted" and l: "L' = set_cell_coord moving (coord_of L moving) L1"
    by (auto simp: insert_adjacent_def Let_def s t split: if_splits)
  from t ni try_neighbors_fail [of moving nbrs L L1] l show ?thesis
    by (simp add: set_cell_coord_frame)
qed

lemma insert_daughter_fail:
  assumes "insert_daughter f g d L engine = Some ((False, L'), engine')"
  shows "f \<in> {step_random, step_mindrag, linear_random, linear_mindrag}
    \<and> extant_cells L' = extant_cells L
    \<and> (\<forall>h. h \<noteq> d \<longrightarrow> obj (cells L') h = obj (cells L) h)"
proof (cases f)
  case step_mindrag
  with assms have "insert_adjacent g d L engine = ((False, L'), engine')"
    by (simp add: insert_daughter_def)
  from insert_adjacent_fail [OF this] step_mindrag show ?thesis by simp
next
  case linear_mindrag
  obtain v e1 where r: "random_neighbor g (coord_of L d) engine = (v, e1)" by (metis surj_pair)
  with assms linear_mindrag
  have "extant_insert d (set_cell_coord d v L) = (False, L')"
    by (simp add: insert_daughter_def)
  then have "L' = set_cell_coord d v L" by (rule extant_insert_fail)
  with linear_mindrag show ?thesis by (simp add: set_cell_coord_frame)
qed (use assms in \<open>auto simp: insert_daughter_def Let_def split: prod.splits option.splits if_splits\<close>)

lemma delta_time_upd:
  assumes "delta_time P st c pv engine = (dt, c', engine')"
  shows "c' = upd (\<lambda>m. m\<lparr>next_event := next_event (members c'),
                          elapsed := elapsed (members c')\<rparr>) c"
  using assms
  by (cases c) (auto simp: delta_time_def upd_def Let_def split: prod.splits if_splits)


lemma periodic_snapshot_fields:
  assumes "periodic_snapshot (T, F) = (T', F')"
  shows "lattice T' = lattice T" "rates T' = rates T" "history T' = history T"
    "id_tail T' = id_tail T" "drivers T' = drivers T" "time T' = time T" "queue T' = queue T"
    "snapshots T' = (if dlt (time_snapshot F) (time T) then snapshots (snapshots_append T)
                     else snapshots T)"
    "recording_early_growth F' = recording_early_growth F"
  using assms
  by (auto simp: periodic_snapshot_def snapshots_append_def Let_def split: if_splits)

text \<open>
  C3. An iteration of the loop of \<open>grow\<close> in which the cell at the head of the queue is due
  to divide and the insert function returns \<^verbatim>\<open>false\<close>: the insert function is one of the
  step and linear ones; the iteration continues the loop with the simulation time set to
  the popped key; the cells of the occupancy set, the history, the id counter, the driver
  stream and the rates are as before; the snapshot stream has grown by the periodic
  snapshot if the popped key is later than \<open>time_snapshot\<close> and is as before otherwise;
  the mother has one new queue entry, at the popped key plus the time \<open>delta_time\<close>
  returns; the mother differs from before in \<open>next_event\<close> and \<open>elapsed\<close> only, so in
  neither id nor ancestor; and every other cell but the discarded daughter is as before.
\<close>

theorem failed_insert_reschedules_mother:
  assumes "queue T = (key, mother) # rest"
    and "\<not> (dlt (max_time F) key \<or> max_size F \<le> length (extant_cells (lattice T)))"
    and "next_event (members (obj (cells (lattice T)) mother)) = birth"
    and "mother < top (cells (lattice T))"
    and "Cell_copy P (obj (cells (lattice T)) mother) engine = (copy, engine1)"
    and "make_shared copy (cells (lattice T)) = (daughter, cells1)"
    and "insert_daughter f g daughter ((lattice T)\<lparr>cells := cells1\<rparr>) engine1
           = Some ((False, L), engine2)"
    and "delta_time P (rates T) (obj (cells (lattice T)) mother) (Fin 1) engine2
           = (dt, c, engine3)"
  shows "\<exists>T' F'. grow_step P g f (T, F, engine) = Some (Continue (T', F', engine3))
    \<and> f \<in> {step_random, step_mindrag, linear_random, linear_mindrag}
    \<and> time T' = key
    \<and> extant_cells (lattice T') = extant_cells (lattice T)
    \<and> history T' = history T \<and> id_tail T' = id_tail T \<and> drivers T' = drivers T
    \<and> rates T' = rates T
    \<and> snapshots T' = (if dlt (time_snapshot F) key
                       then snapshots (snapshots_append (T\<lparr>time := key\<rparr>))
                       else snapshots T)
    \<and> recording_early_growth F' = recording_early_growth F
    \<and> queue T' = queue_emplace (dadd dt key) mother rest
    \<and> obj (cells (lattice T')) mother =
        upd (\<lambda>m. m\<lparr>next_event := next_event (members c), elapsed := elapsed (members c)\<rparr>)
          (obj (cells (lattice T)) mother)
    \<and> (\<forall>h. h \<noteq> mother \<and> h \<noteq> daughter \<longrightarrow>
          obj (cells (lattice T')) h = obj (cells (lattice T)) h)"
proof -
  obtain T2 F1 where p: "periodic_snapshot (T\<lparr>time := key\<rparr>, F) = (T2, F1)"
    by (metis surj_pair)
  note pf = periodic_snapshot_fields [OF p]
  note fl = insert_daughter_fail [OF assms(7)]
  have dm: "daughter = top (cells (lattice T))"
    and c1: "\<And>h. h \<noteq> daughter \<Longrightarrow> obj cells1 h = obj (cells (lattice T)) h"
    using assms(6) by (auto simp: make_shared_def)
  have md: "mother \<noteq> daughter" using assms(4) dm by simp
  have mo: "obj (cells L) mother = obj (cells (lattice T)) mother"
    using fl md c1 by simp
  define T' where "T' = T2\<lparr>lattice := L\<lparr>cells := assign mother c (cells L)\<rparr>,
    queue := queue_emplace (dadd dt key) mother rest\<rparr>"
  have q: "queue_push P mother (T2\<lparr>queue := rest, lattice := L\<rparr>, engine2) = (T', engine3)"
    using assms(8) pf
    by (simp add: queue_push_def mo positional_value_def T'_def)
  have b: "birth_event P g f mother (T2\<lparr>queue := rest\<rparr>, F1, engine)
      = Some (Continue (T', F1, engine3))"
    using pf assms(5,6,7) q by (simp add: birth_event_def)
  have g: "grow_step P g f (T, F, engine) = Some (Continue (T', F1, engine3))"
    using assms(1,2,3) pf b by (simp add: grow_step_def Let_def p)
  have 1: "time T' = key" "history T' = history T" "id_tail T' = id_tail T"
    "drivers T' = drivers T" "rates T' = rates T"
    "queue T' = queue_emplace (dadd dt key) mother rest"
    "extant_cells (lattice T') = extant_cells (lattice T)"
    using pf fl by (simp_all add: T'_def)
  have 2: "snapshots T' = (if dlt (time_snapshot F) key
                       then snapshots (snapshots_append (T\<lparr>time := key\<rparr>))
                       else snapshots T)"
    using pf(8) by (simp add: T'_def)
  have 3: "obj (cells (lattice T')) mother =
        upd (\<lambda>m. m\<lparr>next_event := next_event (members c), elapsed := elapsed (members c)\<rparr>)
          (obj (cells (lattice T)) mother)"
    using delta_time_upd [OF assms(8)] by (simp add: T'_def assign_def)
  have 4: "\<forall>h. h \<noteq> mother \<and> h \<noteq> daughter \<longrightarrow>
          obj (cells (lattice T')) h = obj (cells (lattice T)) h"
    using fl c1 by (simp add: T'_def assign_def)
  from g 1 2 3 4 pf(9) fl show ?thesis by blast
qed


theorem failed_insert_reschedules_mother_witness:
  "queue pair_tissue = (Fin 2, 0) # [(Fin 3, 1)]
   \<and> \<not> (dlt (max_time pair_frame) (Fin 2)
          \<or> max_size pair_frame \<le> length (extant_cells (lattice pair_tissue)))
   \<and> next_event (members (obj (cells (lattice pair_tissue)) 0)) = birth
   \<and> 0 < top (cells (lattice pair_tissue))
   \<and> Cell_copy example_params (obj (cells (lattice pair_tissue)) 0) late_engine
       = (example_cell, late_engine)
   \<and> make_shared example_cell (cells (lattice pair_tissue))
       = (2, snd (make_shared example_cell pair_cells))
   \<and> insert_daughter linear_random neumann_2d 2
         ((lattice pair_tissue)\<lparr>cells := snd (make_shared example_cell pair_cells)\<rparr>)
         late_engine
       = Some ((False, pair_lattice\<lparr>cells := snd (make_shared example_cell pair_cells)\<rparr>),
               late_engine\<lparr>pos := 1\<rparr>)
   \<and> delta_time example_params (rates pair_tissue) (obj (cells (lattice pair_tissue)) 0)
         (Fin 1) (late_engine\<lparr>pos := 1\<rparr>)
       = (Fin (9 / 10), upd (\<lambda>m. m\<lparr>next_event := death\<rparr>) example_cell,
          late_engine\<lparr>pos := 3\<rparr>)
   \<and> (\<exists>T' F'. grow_step example_params neumann_2d linear_random
          (pair_tissue, pair_frame, late_engine) = Some (Continue (T', F', late_engine\<lparr>pos := 3\<rparr>))
        \<and> time T' = Fin 2
        \<and> extant_cells (lattice T') = [0, 1]
        \<and> history T' = [] \<and> id_tail T' = 3 \<and> drivers T' = []
        \<and> length (snapshots T') = 2
        \<and> queue T' = [(Fin (29 / 10), 0), (Fin 3, 1)]
        \<and> obj (cells (lattice T')) 0 = upd (\<lambda>m. m\<lparr>next_event := death\<rparr>) example_cell
        \<and> obj (cells (lattice T')) 1 = set_coord [0, 1] example_cell)"
proof -
  have 1: "queue pair_tissue = (Fin 2, 0) # [(Fin 3, 1)]"
    by (simp add: pair_defs)
  have 2: "\<not> (dlt (max_time pair_frame) (Fin 2)
          \<or> max_size pair_frame \<le> length (extant_cells (lattice pair_tissue)))"
    by (simp add: pair_defs)
  have 3: "next_event (members (obj (cells (lattice pair_tissue)) 0)) = birth"
    by (simp add: pair_defs example_defs)
  have 4: "0 < top (cells (lattice pair_tissue))"
    by (simp add: pair_defs)
  have 5: "Cell_copy example_params (obj (cells (lattice pair_tissue)) 0) late_engine
       = (example_cell, late_engine)"
    by (simp add: pair_defs example_defs Cell_copy_def engine_defs dbl_defs)
  have 6: "make_shared example_cell (cells (lattice pair_tissue))
       = (2, snd (make_shared example_cell pair_cells))"
    by (simp add: pair_defs make_shared_def)
  have 7: "insert_daughter linear_random neumann_2d 2
         ((lattice pair_tissue)\<lparr>cells := snd (make_shared example_cell pair_cells)\<rparr>)
         late_engine
       = Some ((False, pair_lattice\<lparr>cells := snd (make_shared example_cell pair_cells)\<rparr>),
               late_engine\<lparr>pos := 1\<rparr>)"
    by (simp add: pair_defs example_defs grow_defs engine_defs store_defs dbl_defs Let_def)
  have 8: "delta_time example_params (rates pair_tissue) (obj (cells (lattice pair_tissue)) 0)
         (Fin 1) (late_engine\<lparr>pos := 1\<rparr>)
       = (Fin (9 / 10), upd (\<lambda>m. m\<lparr>next_event := death\<rparr>) example_cell,
          late_engine\<lparr>pos := 3\<rparr>)"
    by (simp add: pair_defs example_defs grow_defs engine_defs store_defs dbl_defs Let_def)
  from failed_insert_reschedules_mother [OF 1 2 3 4 5 6 7 8]
  obtain T' F' where g: "grow_step example_params neumann_2d linear_random
          (pair_tissue, pair_frame, late_engine) = Some (Continue (T', F', late_engine\<lparr>pos := 3\<rparr>))"
    and t: "time T' = Fin 2"
    and e: "extant_cells (lattice T') = extant_cells (lattice pair_tissue)"
    and h: "history T' = history pair_tissue" "id_tail T' = id_tail pair_tissue"
      "drivers T' = drivers pair_tissue"
    and s: "snapshots T' = (if dlt (time_snapshot pair_frame) (Fin 2)
                       then snapshots (snapshots_append (pair_tissue\<lparr>time := Fin 2\<rparr>))
                       else snapshots pair_tissue)"
    and q: "queue T' = queue_emplace (dadd (Fin (9 / 10)) (Fin 2)) 0 [(Fin 3, 1)]"
    and m: "obj (cells (lattice T')) 0 =
        upd (\<lambda>m. m\<lparr>next_event := next_event (members (upd (\<lambda>m. m\<lparr>next_event := death\<rparr>) example_cell)),
                    elapsed := elapsed (members (upd (\<lambda>m. m\<lparr>next_event := death\<rparr>) example_cell))\<rparr>)
          (obj (cells (lattice pair_tissue)) 0)"
    and o: "\<forall>h. h \<noteq> 0 \<and> h \<noteq> 2 \<longrightarrow>
          obj (cells (lattice T')) h = obj (cells (lattice pair_tissue)) h"
    by blast
  have e': "extant_cells (lattice T') = [0, 1]" using e by (simp add: pair_defs)
  have h': "history T' = []" "id_tail T' = 3" "drivers T' = []"
    using h by (simp_all add: pair_defs)
  have s': "length (snapshots T') = 2"
    using s by (simp add: pair_defs snapshots_append_def)
  have q': "queue T' = [(Fin (29 / 10), 0), (Fin 3, 1)]"
    using q by simp
  have m': "obj (cells (lattice T')) 0 = upd (\<lambda>m. m\<lparr>next_event := death\<rparr>) example_cell"
    using m by (simp add: pair_defs example_defs upd_def)
  have o': "obj (cells (lattice T')) 1 = set_coord [0, 1] example_cell"
    using o by (simp add: pair_defs)
  from 1 2 3 4 5 6 7 8 g t e' h' s' q' m' o' show ?thesis by blast
qed

theorem failed_insert_writes_snapshot:
  "Cell_copy example_params (obj (cells (lattice pair_tissue)) 0) late_engine
       = (example_cell, late_engine)
   \<and> insert_daughter linear_random neumann_2d 2
         ((lattice pair_tissue)\<lparr>cells := snd (make_shared example_cell pair_cells)\<rparr>)
         late_engine
       = Some ((False, pair_lattice\<lparr>cells := snd (make_shared example_cell pair_cells)\<rparr>),
               late_engine\<lparr>pos := 1\<rparr>)
   \<and> grow_step example_params neumann_2d linear_random (pair_tissue, pair_frame, late_engine)
       \<noteq> None
   \<and> snapshots pair_tissue = []
   \<and> snapshots (fst (loop_state (the (grow_step example_params neumann_2d linear_random
         (pair_tissue, pair_frame, late_engine)))))
       = [(Fin 2, example_cell, example_rates), (Fin 2, set_coord [0, 1] example_cell, example_rates)]"
  by (simp add: pair_defs example_defs grow_defs engine_defs store_defs dbl_defs Let_def)

end
